theory Spec2Isabelle
  imports Complex_Main "HOL-Library.Word"
begin

unbundle bit_operations_syntax

section \<open>Host-language values\<close>

text \<open>
  A Python \<^verbatim>\<open>bytes\<close> object is a sequence of integers in \<open>range(256)\<close>: a list of
  8-bit words, read as Python ints by \<open>uint\<close>. Python ints are unbounded: \<open>int\<close>.
\<close>

type_synonym bytes = "8 word list"

text \<open>The argument of the constructor: any object; only its being \<^verbatim>\<open>bytes\<close> matters.\<close>

datatype pyobj = Bytes bytes | NotBytes

text \<open>
  The exceptions the module can raise: the three it raises itself, \<^verbatim>\<open>struct.error\<close>
  from \<^verbatim>\<open>struct.pack\<close>/\<^verbatim>\<open>struct.unpack\<close>, and the ones of indexing and of float
  arithmetic.
\<close>

datatype error =
    TypeError
  | FloatingPointError
  | ValueError
  | StructError
  | IndexError
  | ZeroDivisionError
  | OverflowError

text \<open>Sequencing of computations that may raise.\<close>

definition rbind :: "error + 'a \<Rightarrow> ('a \<Rightarrow> error + 'b) \<Rightarrow> error + 'b" where
  "rbind m f = (case m of Inl e \<Rightarrow> Inl e | Inr v \<Rightarrow> f v)"

text \<open>\<^verbatim>\<open>r48[i]\<close> for a non-negative literal index: the byte as an int, or IndexError.\<close>

definition byte_at :: "bytes \<Rightarrow> nat \<Rightarrow> error + int" where
  "byte_at bs i = (if i < length bs then Inr (uint (bs ! i)) else Inl IndexError)"

section \<open>The struct module, big-endian formats\<close>

text \<open>The \<open>n\<close> low bytes of an int, most significant byte first.\<close>

fun be_bytes :: "nat \<Rightarrow> int \<Rightarrow> bytes" where
  "be_bytes 0 x = []"
| "be_bytes (Suc n) x = be_bytes n (x div 256) @ [word_of_int x]"

text \<open>The unsigned int a byte string denotes, most significant byte first.\<close>

definition be_int :: "bytes \<Rightarrow> int" where
  "be_int bs = foldl (\<lambda>acc b. acc * 256 + uint b) 0 bs"

text \<open>
  \<^verbatim>\<open>struct.pack('>H' | '>I' | '>Q', x)\<close>: an unsigned int of \<open>n\<close> bytes;
  \<^verbatim>\<open>struct.error\<close> when \<open>x\<close> is out of range.
\<close>

definition pack_unsigned :: "nat \<Rightarrow> int \<Rightarrow> error + bytes" where
  "pack_unsigned n x =
     (if 0 \<le> x \<and> x < 256 ^ n then Inr (be_bytes n x) else Inl StructError)"

text \<open>
  \<^verbatim>\<open>struct.pack('>h' | '>i', x)\<close>: a two's-complement int of \<open>n\<close> bytes;
  \<^verbatim>\<open>struct.error\<close> when \<open>x\<close> is out of range.
\<close>

definition pack_signed :: "nat \<Rightarrow> int \<Rightarrow> error + bytes" where
  "pack_signed n x =
     (if - (256 ^ n div 2) \<le> x \<and> x < 256 ^ n div 2
      then Inr (be_bytes n (x mod 256 ^ n)) else Inl StructError)"

section \<open>Python floats\<close>

text \<open>
  A Python float is an IEEE-754 binary64 value: a finite value with a sign (so that
  \<open>0.0\<close> is \<open>Finite False 0\<close> and \<open>-0.0\<close> is \<open>Finite True 0\<close>) and a magnitude, an
  infinity with a sign, or a NaN.
\<close>

datatype pyfloat = Finite bool real | Infinity bool | NaN

text \<open>Rounding to an integer, ties to even.\<close>

definition round_half_even :: "real \<Rightarrow> int" where
  "round_half_even x =
     (let f = \<lfloor>x\<rfloor>; d = x - of_int f in
      if d < 1 / 2 then f
      else if 1 / 2 < d then f + 1
      else if even f then f else f + 1)"

text \<open>
  The binade of a magnitude \<open>r > 0\<close>, within the exponent range of binary64: the largest
  \<open>e\<close> with \<open>2 powi e \<le> r\<close> among \<open>n - 1022, \<dots>, - 1021\<close>, and \<open>- 1022\<close> (the exponent
  of the subnormal numbers too) when there is none.
\<close>

fun binade_from :: "real \<Rightarrow> nat \<Rightarrow> int" where
  "binade_from r 0 = - 1022"
| "binade_from r (Suc n) =
     (if 2 powi (int (Suc n) - 1022) \<le> r then int (Suc n) - 1022 else binade_from r n)"

text \<open>
  The exponent of the unit in the last place of the binary64 numbers around \<open>r\<close>: 52
  below its binade, searched from the largest exponent 1023 down.
\<close>

definition ulp_exp :: "real \<Rightarrow> int" where
  "ulp_exp r = binade_from r 2045 - 52"

text \<open>
  Round-to-nearest, ties-to-even, of a magnitude \<open>r \<ge> 0\<close> to binary64; \<open>None\<close> on
  overflow (what becomes of it depends on the operation).
\<close>

definition round64 :: "real \<Rightarrow> real option" where
  "round64 r =
     (if r = 0 then Some 0
      else let q = 2 powi ulp_exp r;
               y = of_int (round_half_even (r / q)) * q
           in if 2 powi 1024 \<le> y then None else Some y)"

text \<open>The real number a finite float denotes.\<close>

definition signed :: "bool \<Rightarrow> real \<Rightarrow> real" where
  "signed s r = (if s then - r else r)"

text \<open>Conversion of an int operand to float: OverflowError when it is too large.\<close>

definition float_of_int :: "int \<Rightarrow> error + pyfloat" where
  "float_of_int i =
     (case round64 \<bar>of_int i\<bar> of
        None \<Rightarrow> Inl OverflowError
      | Some y \<Rightarrow> Inr (Finite (i < 0) y))"

text \<open>Float addition; an overflow gives an infinity.\<close>

fun float_add :: "pyfloat \<Rightarrow> pyfloat \<Rightarrow> pyfloat" where
  "float_add (Finite s x) (Finite t y) =
     (let z = signed s x + signed t y in
      if z = 0 then Finite (s \<and> t) 0
      else (case round64 \<bar>z\<bar> of
              None \<Rightarrow> Infinity (z < 0)
            | Some w \<Rightarrow> Finite (z < 0) w))"
| "float_add (Finite s x) (Infinity t) = Infinity t"
| "float_add (Infinity s) (Finite t y) = Infinity s"
| "float_add (Infinity s) (Infinity t) = (if s = t then Infinity s else NaN)"
| "float_add NaN b = NaN"
| "float_add a NaN = NaN"

text \<open>Float multiplication; an overflow gives an infinity.\<close>

fun float_mul :: "pyfloat \<Rightarrow> pyfloat \<Rightarrow> pyfloat" where
  "float_mul (Finite s x) (Finite t y) =
     (case round64 (x * y) of
        None \<Rightarrow> Infinity (s \<noteq> t)
      | Some w \<Rightarrow> Finite (s \<noteq> t) w)"
| "float_mul (Finite s x) (Infinity t) = (if x = 0 then NaN else Infinity (s \<noteq> t))"
| "float_mul (Infinity s) (Finite t y) = (if y = 0 then NaN else Infinity (s \<noteq> t))"
| "float_mul (Infinity s) (Infinity t) = Infinity (s \<noteq> t)"
| "float_mul NaN b = NaN"
| "float_mul a NaN = NaN"

text \<open>Float true division: ZeroDivisionError on a zero divisor.\<close>

fun float_div :: "pyfloat \<Rightarrow> pyfloat \<Rightarrow> error + pyfloat" where
  "float_div (Finite s x) (Finite t y) =
     (if y = 0 then Inl ZeroDivisionError
      else (case round64 (x / y) of
              None \<Rightarrow> Inr (Infinity (s \<noteq> t))
            | Some w \<Rightarrow> Inr (Finite (s \<noteq> t) w)))"
| "float_div (Finite s x) (Infinity t) = Inr (Finite (s \<noteq> t) 0)"
| "float_div (Infinity s) (Finite t y) =
     (if y = 0 then Inl ZeroDivisionError else Inr (Infinity (s \<noteq> t)))"
| "float_div (Infinity s) (Infinity t) = Inr NaN"
| "float_div NaN (Finite t y) = (if y = 0 then Inl ZeroDivisionError else Inr NaN)"
| "float_div NaN b = Inr NaN"
| "float_div a NaN = Inr NaN"

text \<open>Unary minus flips the sign, also of a zero.\<close>

fun float_neg :: "pyfloat \<Rightarrow> pyfloat" where
  "float_neg (Finite s x) = Finite (\<not> s) x"
| "float_neg (Infinity s) = Infinity (\<not> s)"
| "float_neg NaN = NaN"

text \<open>\<^verbatim>\<open>2.0 ** e\<close> for an int \<open>e\<close>: OverflowError when the power is too large.\<close>

definition pow2 :: "int \<Rightarrow> error + pyfloat" where
  "pow2 e =
     (case round64 (2 powi e) of
        None \<Rightarrow> Inl OverflowError
      | Some w \<Rightarrow> Inr (Finite False w))"

text \<open>
  \<^verbatim>\<open>a / b\<close> on two ints: the correctly rounded quotient, negative (also when zero)
  when exactly one operand is negative.
\<close>

definition int_truediv :: "int \<Rightarrow> int \<Rightarrow> error + pyfloat" where
  "int_truediv a b =
     (if b = 0 then Inl ZeroDivisionError
      else (case round64 \<bar>of_int a / of_int b\<bar> of
              None \<Rightarrow> Inl OverflowError
            | Some w \<Rightarrow> Inr (Finite ((a < 0) \<noteq> (b < 0)) w)))"

text \<open>\<^verbatim>\<open>int(x)\<close> on a float truncates towards zero, and raises on infinities and NaNs.\<close>

fun int_of_float :: "pyfloat \<Rightarrow> error + int" where
  "int_of_float (Finite s x) = Inr (if s then - \<lfloor>x\<rfloor> else \<lfloor>x\<rfloor>)"
| "int_of_float (Infinity s) = Inl OverflowError"
| "int_of_float NaN = Inl ValueError"

text \<open>
  \<^verbatim>\<open>struct.unpack('>f', b)[0]\<close>: the binary32 value of the 32-bit pattern (sign bit,
  8 exponent bits with bias 127, 23 fraction bits), which a Python float holds exactly;
  \<^verbatim>\<open>struct.error\<close> unless \<open>b\<close> has four bytes.
\<close>

definition ieee_single :: "int \<Rightarrow> pyfloat" where
  "ieee_single bits =
     (let s = (bits div 2 ^ 31) mod 2 = 1;
          e = (bits div 2 ^ 23) mod 256;
          f = bits mod 2 ^ 23
      in if e = 255 then (if f = 0 then Infinity s else NaN)
         else if e = 0 then Finite s (of_int f * 2 powi (- 149))
         else Finite s (of_int (2 ^ 23 + f) * 2 powi (e - 150)))"

definition unpack_f :: "bytes \<Rightarrow> error + pyfloat" where
  "unpack_f b = (if length b = 4 then Inr (ieee_single (be_int b)) else Inl StructError)"

text \<open>
  \<^verbatim>\<open>struct.unpack('>d', b)[0]\<close>: the binary64 value of the 64-bit pattern (sign bit,
  11 exponent bits with bias 1023, 52 fraction bits); \<^verbatim>\<open>struct.error\<close> unless \<open>b\<close> has
  eight bytes.
\<close>

definition ieee_double :: "int \<Rightarrow> pyfloat" where
  "ieee_double bits =
     (let s = (bits div 2 ^ 63) mod 2 = 1;
          e = (bits div 2 ^ 52) mod 2048;
          f = bits mod 2 ^ 52
      in if e = 2047 then (if f = 0 then Infinity s else NaN)
         else if e = 0 then Finite s (of_int f * 2 powi (- 1074))
         else Finite s (of_int (2 ^ 52 + f) * 2 powi (e - 1075)))"

definition unpack_d :: "bytes \<Rightarrow> error + pyfloat" where
  "unpack_d b = (if length b = 8 then Inr (ieee_double (be_int b)) else Inl StructError)"

section \<open>combine\_ints\<close>

text \<open>
  \<^verbatim>\<open>
  if -32767 <= int2 <= 32767 and -2147483648 <= int4 <= 2147483647:
    small = struct.pack('>h', int2)
    big = struct.pack('>i', int4)
    r48 = big + small
    return r48
  else:
    raise ValueError(...)
  \<close>
\<close>

definition combine_ints :: "int \<Rightarrow> int \<Rightarrow> error + bytes" where
  "combine_ints int2 int4 =
     (if - 32767 \<le> int2 \<and> int2 \<le> 32767 \<and> - 2147483648 \<le> int4 \<and> int4 \<le> 2147483647
      then rbind (pack_signed 2 int2) (\<lambda>small.
           rbind (pack_signed 4 int4) (\<lambda>big.
           Inr (big @ small)))
      else Inl ValueError)"

section \<open>The class real48\<close>

text \<open>The instance: the byte string and the two cached fields.\<close>

record real48 =
  byte_str :: bytes
  sign :: int
  exp48 :: int

text \<open>\<^verbatim>\<open>(r48[0] & 0x80) >> 7\<close>\<close>

definition extract_sign :: "bytes \<Rightarrow> error + int" where
  "extract_sign r48 = rbind (byte_at r48 0) (\<lambda>a0. Inr (drop_bit 7 (a0 AND 128)))"

text \<open>\<^verbatim>\<open>r48[5]\<close>\<close>

definition extract_exponent :: "bytes \<Rightarrow> error + int" where
  "extract_exponent r48 = byte_at r48 5"

text \<open>
  The constructor: TypeError unless the argument is a byte string,
  FloatingPointError unless it has six bytes; then the fields are set.
\<close>

definition init :: "pyobj \<Rightarrow> error + real48" where
  "init arg =
     (case arg of
        NotBytes \<Rightarrow> Inl TypeError
      | Bytes r48 \<Rightarrow>
          if length r48 \<noteq> 6 then Inl FloatingPointError
          else rbind (extract_sign r48) (\<lambda>s.
               rbind (extract_exponent r48) (\<lambda>e.
               Inr \<lparr>byte_str = r48, sign = s, exp48 = e\<rparr>)))"

text \<open>
  \<^verbatim>\<open>reverse_bytes\<close> assigns the three fields in turn and returns nothing: the model
  returns the object after the call and the exception raised, if any (the fields
  assigned before it stay assigned).
\<close>

definition reverse_bytes :: "real48 \<Rightarrow> real48 \<times> error option" where
  "reverse_bytes self =
     (let self1 = self\<lparr>byte_str := rev (byte_str self)\<rparr> in
      case extract_sign (byte_str self1) of
        Inl e \<Rightarrow> (self1, Some e)
      | Inr s \<Rightarrow>
          let self2 = self1\<lparr>sign := s\<rparr> in
          case extract_exponent (byte_str self2) of
            Inl e \<Rightarrow> (self2, Some e)
          | Inr x \<Rightarrow> (self2\<lparr>exp48 := x\<rparr>, None))"

text \<open>
  \<^verbatim>\<open>to_single\<close>: the mantissa is computed first (so its index errors come first), a
  zero exponent returns \<open>0.0\<close>, the test for 255 does nothing, and the pattern goes
  through \<^verbatim>\<open>struct.pack('>I', bits)\<close> and \<^verbatim>\<open>struct.unpack('>f', ...)\<close>.
\<close>

definition to_single :: "real48 \<Rightarrow> error + pyfloat" where
  "to_single self =
     rbind (byte_at (byte_str self) 0) (\<lambda>a0.
     rbind (byte_at (byte_str self) 1) (\<lambda>a1.
     rbind (byte_at (byte_str self) 2) (\<lambda>a2.
     let mant = push_bit 16 (a0 mod 128) + push_bit 8 a1 + a2 in
     if exp48 self = 0 then Inr (Finite False 0)
     else
       let unbias_exp = exp48 self - 2;
           bits = push_bit 31 (sign self) + push_bit 23 unbias_exp + mant
       in rbind (pack_unsigned 4 bits) unpack_f)))"

text \<open>\<^verbatim>\<open>to_double\<close>, likewise, through \<^verbatim>\<open>'>Q'\<close> and \<^verbatim>\<open>'>d'\<close>.\<close>

definition to_double :: "real48 \<Rightarrow> error + pyfloat" where
  "to_double self =
     rbind (byte_at (byte_str self) 0) (\<lambda>a0.
     rbind (byte_at (byte_str self) 1) (\<lambda>a1.
     rbind (byte_at (byte_str self) 2) (\<lambda>a2.
     rbind (byte_at (byte_str self) 3) (\<lambda>a3.
     rbind (byte_at (byte_str self) 4) (\<lambda>a4.
     let mant = push_bit 32 (a0 mod 128) + push_bit 24 a1 + push_bit 16 a2
                + push_bit 8 a3 + a4 in
     if exp48 self = 0 then Inr (Finite False 0)
     else
       let unbias_exp = exp48 self + 894;
           bits = push_bit 63 (sign self) + push_bit 52 unbias_exp + push_bit 13 mant
       in rbind (pack_unsigned 8 bits) unpack_d)))))"

text \<open>An int operand of a float operation is converted first.\<close>

definition int_div_float :: "int \<Rightarrow> pyfloat \<Rightarrow> error + pyfloat" where
  "int_div_float a y = rbind (float_of_int a) (\<lambda>x. float_div x y)"

definition int_add_float :: "int \<Rightarrow> pyfloat \<Rightarrow> error + pyfloat" where
  "int_add_float a y = rbind (float_of_int a) (\<lambda>x. Inr (float_add x y))"

text \<open>The float literals of \<^verbatim>\<open>value\<close>.\<close>

definition f256 :: pyfloat where "f256 = Finite False 256"
definition f2 :: pyfloat where "f2 = Finite False 2"
definition f1 :: pyfloat where "f1 = Finite False 1"
definition f0 :: pyfloat where "f0 = Finite False 0"

text \<open>
  \<^verbatim>\<open>
  sign = int(a0/128)
  exp = a5 - 129
  if a5 == 0: mant = 0.0
  else: mant = 1.0 + ( 2.0 * ((a0 % 128)+(a1+(a2+(a3+a4/256.0)/256.0)/256.0)/256.0)/256.0 )
  if sign == 1: mant = -mant
  value = 2.0**exp * mant
  \<close>
  with every operation on floats rounded as Python rounds it. The mantissa expression
  is evaluated from the innermost division outwards.
\<close>

definition mant48 :: "int \<Rightarrow> int \<Rightarrow> int \<Rightarrow> int \<Rightarrow> int \<Rightarrow> error + pyfloat" where
  "mant48 a0 a1 a2 a3 a4 =
     rbind (int_div_float a4 f256) (\<lambda>t4.
     rbind (int_add_float a3 t4) (\<lambda>s3.
     rbind (float_div s3 f256) (\<lambda>t3.
     rbind (int_add_float a2 t3) (\<lambda>s2.
     rbind (float_div s2 f256) (\<lambda>t2.
     rbind (int_add_float a1 t2) (\<lambda>s1.
     rbind (float_div s1 f256) (\<lambda>t1.
     rbind (int_add_float (a0 mod 128) t1) (\<lambda>s0.
     rbind (float_div (float_mul f2 s0) f256) (\<lambda>t0.
     Inr (float_add f1 t0))))))))))"

definition value48 :: "real48 \<Rightarrow> error + pyfloat" where
  "value48 self =
     rbind (byte_at (byte_str self) 0) (\<lambda>a0.
     rbind (byte_at (byte_str self) 1) (\<lambda>a1.
     rbind (byte_at (byte_str self) 2) (\<lambda>a2.
     rbind (byte_at (byte_str self) 3) (\<lambda>a3.
     rbind (byte_at (byte_str self) 4) (\<lambda>a4.
     rbind (byte_at (byte_str self) 5) (\<lambda>a5.
     rbind (rbind (int_truediv a0 128) int_of_float) (\<lambda>sgn.
     let e = a5 - 129 in
     rbind (if a5 = 0 then Inr f0 else mant48 a0 a1 a2 a3 a4) (\<lambda>mant.
     let mant' = (if sgn = 1 then float_neg mant else mant) in
     rbind (pow2 e) (\<lambda>p.
     Inr (float_mul p mant'))))))))))"

section \<open>Reading the results\<close>

text \<open>
  The int that a big-endian two's-complement byte string denotes: the reading of
  \<^verbatim>\<open>struct.unpack('>h' | '>i', b)\<close>, by which the output of \<open>combine_ints\<close> is judged.
\<close>

definition be_sint :: "bytes \<Rightarrow> int" where
  "be_sint bs =
     (let u = be_int bs; m = 256 ^ length bs in if u < m div 2 then u else u - m)"

text \<open>
  What a caller can do with an instance: call one of the four methods or read one of
  the two cached fields. Only \<^verbatim>\<open>reverse_bytes\<close> assigns to a field of the instance.
\<close>

datatype action = Reverse_bytes | To_single | To_double | Value | Get_sign | Get_exp

datatype outcome = Returned_none | Returned_float pyfloat | Returned_int int | Raised error

definition outcome_of :: "error + pyfloat \<Rightarrow> outcome" where
  "outcome_of r = (case r of Inl e \<Rightarrow> Raised e | Inr x \<Rightarrow> Returned_float x)"

fun call :: "real48 \<Rightarrow> action \<Rightarrow> real48 \<times> outcome" where
  "call self Reverse_bytes =
     (case reverse_bytes self of
        (self', None) \<Rightarrow> (self', Returned_none)
      | (self', Some e) \<Rightarrow> (self', Raised e))"
| "call self To_single = (self, outcome_of (to_single self))"
| "call self To_double = (self, outcome_of (to_double self))"
| "call self Value = (self, outcome_of (value48 self))"
| "call self Get_sign = (self, Returned_int (sign self))"
| "call self Get_exp = (self, Returned_int (exp48 self))"

text \<open>The instance after a sequence of calls (a caller may catch what a call raises).\<close>

fun run :: "real48 \<Rightarrow> action list \<Rightarrow> real48" where
  "run self [] = self"
| "run self (m # ms) = run (fst (call self m)) ms"

text \<open>The cached fields agree with the buffer, which has six bytes.\<close>

definition consistent :: "real48 \<Rightarrow> bool" where
  "consistent self =
     (length (byte_str self) = 6
      \<and> sign self = (if bit (byte_str self ! 0) 7 then 1 else 0)
      \<and> exp48 self = uint (byte_str self ! 5))"

text \<open>
  The 39-bit mantissa of the format: the low seven bits of byte 0, then bytes 1 to 4.
\<close>

definition spec_mantissa39 :: "bytes \<Rightarrow> int" where
  "spec_mantissa39 r48 =
     (uint (r48 ! 0) mod 128) * 2 ^ 32 + uint (r48 ! 1) * 2 ^ 24 + uint (r48 ! 2) * 2 ^ 16
     + uint (r48 ! 3) * 2 ^ 8 + uint (r48 ! 4)"

text \<open>
  The value that the format gives a buffer with a non-zero exponent byte:
  \<open>(-1)^sign * 2^(exponent - 129) * (1 + M / 2^39)\<close>, as a float.
\<close>

definition spec_value :: "bytes \<Rightarrow> pyfloat" where
  "spec_value r48 =
     Finite (bit (r48 ! 0) 7)
       (2 powi (uint (r48 ! 5) - 129) * (1 + of_int (spec_mantissa39 r48) / 2 ^ 39))"

text \<open>
  The 23 mantissa bits that \<open>to_single\<close> keeps: the low seven bits of byte 0 at bits
  16 to 22, byte 1 at bits 8 to 15, byte 2 at bits 0 to 7.
\<close>

definition spec_mantissa23 :: "bytes \<Rightarrow> int" where
  "spec_mantissa23 r48 =
     (uint (r48 ! 0) mod 128) * 2 ^ 16 + uint (r48 ! 1) * 2 ^ 8 + uint (r48 ! 2)"

text \<open>The buffer with only the sign bit (bit 7 of byte 0) flipped.\<close>

definition flip_sign :: "bytes \<Rightarrow> bytes" where
  "flip_sign r48 = r48[0 := (r48 ! 0) XOR 0x80]"

section \<open>Basic facts\<close>

lemma rbind_Inr [simp]: "rbind (Inr v) f = f v"
  by (simp add: rbind_def)

lemma rbind_Inl [simp]: "rbind (Inl e) f = Inl e"
  by (simp add: rbind_def)

lemma length_be_bytes [simp]: "length (be_bytes n x) = n"
  by (induction n arbitrary: x) auto

lemma be_int_snoc: "be_int (bs @ [b]) = be_int bs * 256 + uint b"
  by (simp add: be_int_def)

text \<open>Packing then reading back gives the int, reduced to \<open>n\<close> bytes.\<close>

lemma be_int_be_bytes: "be_int (be_bytes n x) = x mod 256 ^ n"
proof (induction n arbitrary: x)
  case 0
  show ?case by (simp add: be_int_def)
next
  case (Suc n)
  have "uint (word_of_int x :: 8 word) = x mod 256"
    by (simp add: uint_word_of_int)
  then have "be_int (be_bytes (Suc n) x) = (x div 256 mod 256 ^ n) * 256 + x mod 256"
    by (simp add: be_int_snoc Suc)
  also have "\<dots> = x mod 256 ^ Suc n"
    using zmod_zmult2_eq [of "256 ^ n" x 256] by simp
  finally show ?case .
qed

lemma be_sint_pack:
  assumes "- (256 ^ n div 2) \<le> x" "x < 256 ^ n div 2"
  shows "be_sint (be_bytes n (x mod 256 ^ n)) = x"
proof (cases "0 \<le> x")
  case True
  with assms have "x mod 256 ^ n = x" by simp
  with assms show ?thesis by (simp add: be_sint_def be_int_be_bytes Let_def)
next
  case False
  with assms have "0 < n" by (cases n) auto
  then have e: "(256::int) ^ n div 2 * 2 = 256 ^ n"
    by (cases n) auto
  have "x mod 256 ^ n = (x + 256 ^ n) mod 256 ^ n"
    by simp
  also have "\<dots> = x + 256 ^ n"
    using False assms e by (intro mod_pos_pos_trivial) linarith+
  finally show ?thesis
    using assms False e by (simp add: be_sint_def be_int_be_bytes Let_def)
qed

text \<open>A byte as an int.\<close>

lemma byte_range: "0 \<le> uint (b :: 8 word) \<and> uint b < 256 \<and> uint b \<le> 255"
  using uint_lt2p [of b] by simp

lemma byte_div_128: "0 \<le> (x::int) \<Longrightarrow> x < 256 \<Longrightarrow> x div 128 mod 2 = x div 128"
proof -
  assume a: "0 \<le> x" "x < 256"
  then have "x div 128 \<le> 255 div 128"
    by (intro zdiv_mono1) simp_all
  moreover have "0 \<le> x div 128"
    using a by (simp add: pos_imp_zdiv_nonneg_iff)
  ultimately show ?thesis by simp
qed

text \<open>\<^verbatim>\<open>(a0 & 0x80) >> 7\<close> is bit 7 of the byte, that is \<^verbatim>\<open>a0 // 128\<close>.\<close>

lemma sign_mod: "drop_bit 7 (uint (b :: 8 word) AND 128) = drop_bit 7 (uint b) mod 2"
proof -
  have "drop_bit 7 (128 :: int) = 1"
    by (simp add: drop_bit_eq_div)
  then have "drop_bit 7 (uint b AND 128) = drop_bit 7 (uint b) AND 1"
    by (simp only: drop_bit_and)
  also have "\<dots> = drop_bit 7 (uint b) mod 2"
    by (rule and_one_eq)
  finally show ?thesis .
qed

lemma sign_bit: "drop_bit 7 (uint (b :: 8 word) AND 128) = (if bit b 7 then 1 else 0)"
proof -
  have "bit b 7 \<longleftrightarrow> bit (uint b) 7"
    by (simp add: bit_uint_iff)
  also have "\<dots> \<longleftrightarrow> odd (drop_bit 7 (uint b))"
    by (rule bit_iff_odd_drop_bit)
  finally show ?thesis
    unfolding sign_mod by presburger
qed

lemma sign_div: "drop_bit 7 (uint (b :: 8 word) AND 128) = uint b div 128"
proof -
  have "drop_bit 7 (uint b) = uint b div 128"
    by (simp add: drop_bit_eq_div)
  then show ?thesis
    using byte_div_128 [of "uint b"] byte_range [of b]
    by (simp only: sign_mod)
qed

lemma byte_at_in [simp]: "i < length bs \<Longrightarrow> byte_at bs i = Inr (uint (bs ! i))"
  by (simp add: byte_at_def)

lemma extract_sign_bit:
  "0 < length bs \<Longrightarrow> extract_sign bs = Inr (if bit (bs ! 0) 7 then 1 else 0)"
  unfolding extract_sign_def by (simp del: drop_bit_and add: sign_bit)

lemma extract_sign_div:
  "0 < length bs \<Longrightarrow> extract_sign bs = Inr (uint (bs ! 0) div 128)"
  unfolding extract_sign_def by (simp del: drop_bit_and add: sign_div)

lemma extract_exponent_byte:
  "5 < length bs \<Longrightarrow> extract_exponent bs = Inr (uint (bs ! 5))"
  by (simp add: extract_exponent_def)

lemma bit7_div: "(if bit (b :: 8 word) 7 then 1 else 0) = uint b div 128"
  using sign_bit [of b] sign_div [of b] by simp

text \<open>The constructor establishes the invariant, and every call keeps it.\<close>

lemma init_consistent:
  assumes "init arg = Inr self"
  shows "consistent self \<and> arg = Bytes (byte_str self)"
proof (cases arg)
  case NotBytes
  with assms show ?thesis by (simp add: init_def)
next
  case (Bytes r48)
  with assms have len: "length r48 = 6"
    by (auto simp: init_def split: if_splits)
  with assms Bytes
  have "self = \<lparr>byte_str = r48, sign = (if bit (r48 ! 0) 7 then 1 else 0), exp48 = uint (r48 ! 5)\<rparr>"
    by (simp add: init_def extract_sign_bit extract_exponent_byte)
  with len Bytes show ?thesis
    by (simp add: consistent_def)
qed

lemma init_Bytes:
  "length r48 = 6 \<Longrightarrow>
   init (Bytes r48) = Inr \<lparr>byte_str = r48, sign = uint (r48 ! 0) div 128, exp48 = uint (r48 ! 5)\<rparr>"
  by (simp add: init_def extract_sign_div extract_exponent_byte)

lemma reverse_bytes_consistent:
  assumes "consistent self"
  shows "\<exists>self'. reverse_bytes self = (self', None) \<and> consistent self'
           \<and> byte_str self' = rev (byte_str self)"
proof -
  from assms have len: "length (byte_str self) = 6"
    by (simp add: consistent_def)
  then show ?thesis
    by (simp add: reverse_bytes_def extract_sign_bit extract_exponent_byte Let_def
        consistent_def)
qed

lemma reverse_bytes_involution:
  assumes "consistent self"
  shows "\<exists>self'. reverse_bytes self = (self', None) \<and> reverse_bytes self' = (self, None)"
proof -
  from assms have len: "length (byte_str self) = 6"
    by (simp add: consistent_def)
  with assms show ?thesis
    by (cases self)
       (simp add: consistent_def reverse_bytes_def extract_sign_bit extract_exponent_byte Let_def)
qed

lemma call_consistent: "consistent self \<Longrightarrow> consistent (fst (call self m))"
  using reverse_bytes_consistent [of self] by (cases m) auto

lemma run_consistent: "consistent self \<Longrightarrow> consistent (run self ms)"
  by (induction ms arbitrary: self) (simp_all add: call_consistent)

section \<open>Exact float operations\<close>

text \<open>
  A magnitude \<open>m * 2^k\<close> with \<open>m < 2^53\<close> in the exponent range of binary64 is a binary64
  number: rounding leaves it as it is.
\<close>

lemma round_half_even_of_int [simp]: "round_half_even (of_int n) = n"
  by (simp add: round_half_even_def)

lemma binade_from_cases: "binade_from r n = - 1022 \<or> 2 powi binade_from r n \<le> r"
  by (induction n) auto

lemma round64_exact:
  assumes r: "r = of_int m * 2 powi k"
    and m: "0 \<le> m" "m < 2 ^ 53" and k: "- 1074 \<le> k" and fin: "r < 2 powi 1024"
  shows "round64 r = Some r"
proof (cases "r = 0")
  case True
  then show ?thesis by (simp add: round64_def)
next
  case False
  define p where "p = ulp_exp r"
  have lt: "r < 2 powi (53 + k)"
  proof -
    have "(of_int m :: real) < 2 ^ 53"
      using m by (metis of_int_less_numeral_power_cancel_iff)
    then have "r < 2 ^ 53 * 2 powi k"
      unfolding r by (intro mult_strict_right_mono) simp_all
    also have "\<dots> = 2 powi (53 + k)"
      by (simp add: power_int_add)
    finally show ?thesis .
  qed
  have pk: "p \<le> k"
  proof (cases "binade_from r 2045 = - 1022")
    case True
    with k show ?thesis by (simp add: p_def ulp_exp_def)
  next
    case F: False
    then have "(2::real) powi binade_from r 2045 \<le> r"
      using binade_from_cases [of r 2045] by simp
    with lt have "(2::real) powi binade_from r 2045 < 2 powi (53 + k)"
      by simp
    then have "binade_from r 2045 < 53 + k"
      by (metis power_int_increasing not_le one_le_numeral)
    then show ?thesis by (simp add: p_def ulp_exp_def)
  qed
  have "r / 2 powi p = of_int m * 2 powi (k - p)"
    unfolding r by (simp add: power_int_diff)
  also have "\<dots> = of_int m * 2 ^ nat (k - p)"
    using pk by (simp add: power_int_nonneg_exp)
  also have "\<dots> = of_int (m * 2 ^ nat (k - p))"
    by simp
  finally have q: "r / 2 powi p = of_int (m * 2 ^ nat (k - p))" .
  have "of_int (round_half_even (r / 2 powi p)) * 2 powi p = r / 2 powi p * 2 powi p"
    unfolding q round_half_even_of_int ..
  also have "\<dots> = r"
    by simp
  finally show ?thesis
    using False fin by (simp add: round64_def Let_def flip: p_def)
qed

lemma round64_dyadic:
  assumes "0 \<le> N" "N < 2 ^ 53" "- 1074 \<le> k" "k \<le> 970"
  shows "round64 (of_int N * 2 powi k) = Some (of_int N * 2 powi k)"
proof -
  have "(of_int N :: real) < 2 ^ 53"
    using assms by (metis of_int_less_numeral_power_cancel_iff)
  then have "of_int N * 2 powi k < 2 ^ 53 * (2::real) powi k"
    by (intro mult_strict_right_mono) simp_all
  also have "\<dots> = 2 powi (53 + k)"
    by (simp add: power_int_add)
  also have "\<dots> \<le> 2 powi 1024"
    using assms by (intro power_int_increasing) simp_all
  finally show ?thesis
    using assms by (intro round64_exact [of _ N k]) simp_all
qed

lemma float_of_int_exact:
  assumes "0 \<le> a" "a < 2 ^ 53"
  shows "float_of_int a = Inr (Finite False (of_int a))"
  using round64_dyadic [of a 0] assms by (simp add: float_of_int_def)

lemma float_div_256:
  assumes "0 \<le> N" "N < 2 ^ 53" "- 1066 \<le> k" "k \<le> 970"
  shows "float_div (Finite False (of_int N * 2 powi k)) f256
         = Inr (Finite False (of_int N * 2 powi (k - 8)))"
proof -
  define x :: real where "x = of_int N * 2 powi k"
  define y :: real where "y = of_int N * 2 powi (k - 8)"
  have e: "x / 256 = y"
    unfolding x_def y_def by (simp add: power_int_diff)
  have r: "round64 y = Some y"
    unfolding y_def using assms by (intro round64_dyadic) simp_all
  show ?thesis
    unfolding x_def [symmetric] y_def [symmetric] by (simp add: f256_def e r)
qed

lemma int_div_float_256:
  assumes "0 \<le> a" "a < 2 ^ 53"
  shows "int_div_float a f256 = Inr (Finite False (of_int a * 2 powi (- 8)))"
  using float_div_256 [of a 0] assms by (simp add: int_div_float_def float_of_int_exact)

lemma int_add_float_exact:
  assumes "0 \<le> a" "a < 2 ^ 53" "0 \<le> N" "a * 2 ^ j + N < 2 ^ 53" "j \<le> 1074"
  shows "int_add_float a (Finite False (of_int N * 2 powi (- int j)))
         = Inr (Finite False (of_int (a * 2 ^ j + N) * 2 powi (- int j)))"
proof -
  define x :: real where "x = of_int N * 2 powi (- int j)"
  define y :: real where "y = of_int (a * 2 ^ j + N) * 2 powi (- int j)"
  have e: "of_int a + x = y"
    unfolding x_def y_def by (simp add: power_int_minus field_simps)
  have "0 \<le> a * 2 ^ j + N"
    using assms by simp
  then have "0 \<le> (of_int (a * 2 ^ j + N) :: real)"
    by (simp only: of_int_0_le_iff)
  then have pos: "0 \<le> y"
    unfolding y_def by (intro mult_nonneg_nonneg) simp_all
  have r: "round64 y = Some y"
    unfolding y_def using assms by (intro round64_dyadic) simp_all
  have fa: "float_of_int a = Inr (Finite False (of_int a))"
    using assms by (intro float_of_int_exact)
  show ?thesis
    unfolding x_def [symmetric] y_def [symmetric]
    using pos by (simp add: int_add_float_def fa signed_def e r)
qed

lemma float_mul_2:
  assumes "0 \<le> N" "N < 2 ^ 53" "- 1074 \<le> k" "k \<le> 960"
  shows "float_mul f2 (Finite False (of_int N * 2 powi k))
         = Finite False (of_int N * 2 powi (k + 1))"
proof -
  define x :: real where "x = of_int N * 2 powi k"
  define y :: real where "y = of_int N * 2 powi (k + 1)"
  have e: "2 * x = y"
    unfolding x_def y_def by (simp add: power_int_add)
  have r: "round64 y = Some y"
    unfolding y_def using assms by (intro round64_dyadic) simp_all
  show ?thesis
    unfolding x_def [symmetric] y_def [symmetric] by (simp add: f2_def e r)
qed

lemma float_add_1:
  assumes "0 \<le> N" "2 ^ j + N < 2 ^ 53" "j \<le> 1074"
  shows "float_add f1 (Finite False (of_int N * 2 powi (- int j)))
         = Finite False (of_int (2 ^ j + N) * 2 powi (- int j))"
proof -
  define x :: real where "x = of_int N * 2 powi (- int j)"
  define y :: real where "y = of_int (2 ^ j + N) * 2 powi (- int j)"
  have e: "1 + x = y"
    unfolding x_def y_def by (simp add: power_int_minus field_simps)
  have "0 < 2 ^ j + N"
    using assms by (simp add: add_pos_nonneg)
  then have "0 < (of_int (2 ^ j + N) :: real)"
    by (simp only: of_int_0_less_iff)
  then have pos: "0 < y"
    unfolding y_def by (intro mult_pos_pos) simp_all
  have "0 \<le> 2 ^ j + N"
    using assms by simp
  then have r: "round64 y = Some y"
    unfolding y_def using assms by (intro round64_dyadic) simp_all
  show ?thesis
    unfolding x_def [symmetric] y_def [symmetric]
    using pos by (simp add: f1_def signed_def e r)
qed

lemma pow2_exact:
  assumes "- 1074 \<le> e" "e \<le> 970"
  shows "pow2 e = Inr (Finite False (2 powi e))"
  using round64_dyadic [of 1 e] assms by (simp add: pow2_def)

lemma float_mul_pow2:
  assumes "0 \<le> N" "N < 2 ^ 53" "- 1074 \<le> k + e" "k + e \<le> 970"
  shows "float_mul (Finite False (2 powi e)) (Finite s (of_int N * 2 powi k))
         = Finite s (of_int N * 2 powi (k + e))"
proof -
  define x :: real where "x = of_int N * 2 powi k"
  define y :: real where "y = of_int N * 2 powi (k + e)"
  define p :: real where "p = 2 powi e"
  have e: "p * x = y"
    unfolding x_def y_def p_def by (simp add: power_int_add)
  have r: "round64 y = Some y"
    unfolding y_def using assms by (intro round64_dyadic) simp_all
  show ?thesis
    unfolding x_def [symmetric] y_def [symmetric] p_def [symmetric] by (simp add: e r)
qed

lemma int_truediv_128:
  assumes "0 \<le> a" "a < 2 ^ 53"
  shows "rbind (int_truediv a 128) int_of_float = Inr (a div 128)"
proof -
  define y :: real where "y = of_int a * 2 powi (- 7)"
  have e: "of_int a / 128 = y"
    unfolding y_def by (simp add: power_int_minus field_simps)
  have "0 \<le> y"
    unfolding y_def using assms by (intro mult_nonneg_nonneg) simp_all
  then have e': "\<bar>y\<bar> = y"
    by simp
  have r: "round64 y = Some y"
    unfolding y_def using assms by (intro round64_dyadic) simp_all
  have f: "\<lfloor>y\<rfloor> = a div 128"
    unfolding y_def using floor_divide_of_int_eq [of a 128, where ?'a = real]
    by (simp add: power_int_minus field_simps)
  show ?thesis
    using assms by (simp add: int_truediv_def e e' r f)
qed

text \<open>Every operation of the mantissa expression of \<^verbatim>\<open>value\<close> is exact.\<close>

lemma mant48_exact:
  assumes "0 \<le> a0" "a0 < 256" "0 \<le> a1" "a1 < 256" "0 \<le> a2" "a2 < 256"
    "0 \<le> a3" "a3 < 256" "0 \<le> a4" "a4 < 256"
  shows "mant48 a0 a1 a2 a3 a4
         = Inr (Finite False (of_int (2 ^ 39
              + ((a0 mod 128) * 2 ^ 32 + a1 * 2 ^ 24 + a2 * 2 ^ 16 + a3 * 2 ^ 8 + a4))
              * 2 powi (- 39)))"
proof -
  define N2 where "N2 = a3 * 2 ^ 8 + a4"
  define N3 where "N3 = a2 * 2 ^ 16 + N2"
  define N4 where "N4 = a1 * 2 ^ 24 + N3"
  define M where "M = (a0 mod 128) * 2 ^ 32 + N4"
  have a0: "0 \<le> a0 mod 128" "a0 mod 128 < 128"
    by simp_all
  have b2: "0 \<le> N2" "N2 < 2 ^ 16"
    using assms by (simp_all add: N2_def)
  have b3: "0 \<le> N3" "N3 < 2 ^ 24"
    using assms b2 by (simp_all add: N3_def)
  have b4: "0 \<le> N4" "N4 < 2 ^ 32"
    using assms b3 by (simp_all add: N4_def)
  have bM: "0 \<le> M" "M < 2 ^ 39"
    using a0 b4 by (simp_all add: M_def)
  have t4: "int_div_float a4 f256 = Inr (Finite False (of_int a4 * 2 powi (- 8)))"
    using assms by (intro int_div_float_256) simp_all
  have s3: "int_add_float a3 (Finite False (of_int a4 * 2 powi (- 8)))
            = Inr (Finite False (of_int N2 * 2 powi (- 8)))"
    unfolding N2_def using int_add_float_exact [of a3 a4 8] assms by simp
  have t3: "float_div (Finite False (of_int N2 * 2 powi (- 8))) f256
            = Inr (Finite False (of_int N2 * 2 powi (- 16)))"
    using float_div_256 [of N2 "- 8"] b2 by simp
  have s2: "int_add_float a2 (Finite False (of_int N2 * 2 powi (- 16)))
            = Inr (Finite False (of_int N3 * 2 powi (- 16)))"
    unfolding N3_def using int_add_float_exact [of a2 N2 16] assms b2 by simp
  have t2: "float_div (Finite False (of_int N3 * 2 powi (- 16))) f256
            = Inr (Finite False (of_int N3 * 2 powi (- 24)))"
    using float_div_256 [of N3 "- 16"] b3 by simp
  have s1: "int_add_float a1 (Finite False (of_int N3 * 2 powi (- 24)))
            = Inr (Finite False (of_int N4 * 2 powi (- 24)))"
    unfolding N4_def using int_add_float_exact [of a1 N3 24] assms b3 by simp
  have t1: "float_div (Finite False (of_int N4 * 2 powi (- 24))) f256
            = Inr (Finite False (of_int N4 * 2 powi (- 32)))"
    using float_div_256 [of N4 "- 24"] b4 by simp
  have s0: "int_add_float (a0 mod 128) (Finite False (of_int N4 * 2 powi (- 32)))
            = Inr (Finite False (of_int M * 2 powi (- 32)))"
    unfolding M_def using int_add_float_exact [of "a0 mod 128" N4 32] a0 b4 by simp
  have m2: "float_mul f2 (Finite False (of_int M * 2 powi (- 32)))
            = Finite False (of_int M * 2 powi (- 31))"
    using float_mul_2 [of M "- 32"] bM by simp
  have t0: "float_div (Finite False (of_int M * 2 powi (- 31))) f256
            = Inr (Finite False (of_int M * 2 powi (- 39)))"
    using float_div_256 [of M "- 31"] bM by simp
  have r: "float_add f1 (Finite False (of_int M * 2 powi (- 39)))
            = Finite False (of_int (2 ^ 39 + M) * 2 powi (- 39))"
    using float_add_1 [of M 39] bM by simp
  have "mant48 a0 a1 a2 a3 a4 = Inr (Finite False (of_int (2 ^ 39 + M) * 2 powi (- 39)))"
    unfolding mant48_def t4 rbind_Inr s3 t3 s2 t2 s1 t1 s0 m2 t0 r ..
  then show ?thesis
    by (simp only: M_def N4_def N3_def N2_def add.assoc)
qed

section \<open>Bit patterns\<close>

lemma pack_unpack_d:
  assumes "0 \<le> x" "x < 2 ^ 64"
  shows "rbind (pack_unsigned 8 x) unpack_d = Inr (ieee_double x)"
  using assms by (simp add: pack_unsigned_def unpack_d_def be_int_be_bytes)

lemma pack_unpack_f:
  assumes "0 \<le> x" "x < 2 ^ 32"
  shows "rbind (pack_unsigned 4 x) unpack_f = Inr (ieee_single x)"
  using assms by (simp add: pack_unsigned_def unpack_f_def be_int_be_bytes)

lemma ieee_double_fields:
  assumes s: "s = 0 \<or> s = 1" and e: "0 \<le> e" "e < 2048" and f: "0 \<le> f" "f < 2 ^ 52"
  shows "(s * 2 ^ 63 + e * 2 ^ 52 + f) div 2 ^ 63 mod 2 = (s::int)"
    and "(s * 2 ^ 63 + e * 2 ^ 52 + f) div 2 ^ 52 mod 2048 = e"
    and "(s * 2 ^ 63 + e * 2 ^ 52 + f) mod 2 ^ 52 = f"
proof -
  define bits where "bits = s * 2 ^ 63 + e * 2 ^ 52 + f"
  have b: "bits = 2 ^ 52 * (s * 2048 + e) + f"
    by (simp add: bits_def)
  have d: "bits div 2 ^ 52 = s * 2048 + e"
    using b f by (rule int_div_pos_eq)
  have "s * 2048 + e = 2048 * s + e"
    by simp
  then have m: "(s * 2048 + e) mod 2048 = e" and q: "(s * 2048 + e) div 2048 = s"
    using e by (auto intro: int_mod_pos_eq int_div_pos_eq)
  have "bits div 2 ^ 63 = bits div 2 ^ 52 div 2048"
    by (simp add: zdiv_zmult2_eq [symmetric])
  then have "bits div 2 ^ 63 = s"
    by (simp only: d q)
  then have r1: "bits div 2 ^ 63 mod 2 = s"
    using s by auto
  have r2: "bits div 2 ^ 52 mod 2048 = e"
    by (simp only: d m)
  have r3: "bits mod 2 ^ 52 = f"
    using b f by (rule int_mod_pos_eq)
  show "(s * 2 ^ 63 + e * 2 ^ 52 + f) div 2 ^ 63 mod 2 = (s::int)"
    using r1 unfolding bits_def .
  show "(s * 2 ^ 63 + e * 2 ^ 52 + f) div 2 ^ 52 mod 2048 = e"
    using r2 unfolding bits_def .
  show "(s * 2 ^ 63 + e * 2 ^ 52 + f) mod 2 ^ 52 = f"
    using r3 unfolding bits_def .
qed

lemma ieee_single_fields:
  assumes s: "s = 0 \<or> s = 1" and e: "0 \<le> e" "e < 256" and f: "0 \<le> f" "f < 2 ^ 23"
  shows "(s * 2 ^ 31 + e * 2 ^ 23 + f) div 2 ^ 31 mod 2 = (s::int)"
    and "(s * 2 ^ 31 + e * 2 ^ 23 + f) div 2 ^ 23 mod 256 = e"
    and "(s * 2 ^ 31 + e * 2 ^ 23 + f) mod 2 ^ 23 = f"
proof -
  define bits where "bits = s * 2 ^ 31 + e * 2 ^ 23 + f"
  have b: "bits = 2 ^ 23 * (s * 256 + e) + f"
    by (simp add: bits_def)
  have d: "bits div 2 ^ 23 = s * 256 + e"
    using b f by (rule int_div_pos_eq)
  have "s * 256 + e = 256 * s + e"
    by simp
  then have m: "(s * 256 + e) mod 256 = e" and q: "(s * 256 + e) div 256 = s"
    using e by (auto intro: int_mod_pos_eq int_div_pos_eq)
  have "bits div 2 ^ 31 = bits div 2 ^ 23 div 256"
    by (simp add: zdiv_zmult2_eq [symmetric])
  then have "bits div 2 ^ 31 = s"
    by (simp only: d q)
  then have r1: "bits div 2 ^ 31 mod 2 = s"
    using s by auto
  have r2: "bits div 2 ^ 23 mod 256 = e"
    by (simp only: d m)
  have r3: "bits mod 2 ^ 23 = f"
    using b f by (rule int_mod_pos_eq)
  show "(s * 2 ^ 31 + e * 2 ^ 23 + f) div 2 ^ 31 mod 2 = (s::int)"
    using r1 unfolding bits_def .
  show "(s * 2 ^ 31 + e * 2 ^ 23 + f) div 2 ^ 23 mod 256 = e"
    using r2 unfolding bits_def .
  show "(s * 2 ^ 31 + e * 2 ^ 23 + f) mod 2 ^ 23 = f"
    using r3 unfolding bits_def .
qed

lemma ieee_double_normal:
  assumes "s = 0 \<or> s = 1" "0 < e" "e < 2047" "0 \<le> f" "f < 2 ^ 52"
  shows "ieee_double (s * 2 ^ 63 + e * 2 ^ 52 + f)
         = Finite (s = 1) (of_int (2 ^ 52 + f) * 2 powi (e - 1075))"
proof -
  have e: "0 \<le> e" "e < 2048" using assms by simp_all
  show ?thesis
    unfolding ieee_double_def Let_def
      ieee_double_fields [OF assms(1) e assms(4,5)]
    using assms by simp
qed

lemma ieee_single_normal:
  assumes "s = 0 \<or> s = 1" "0 < e" "e < 255" "0 \<le> f" "f < 2 ^ 23"
  shows "ieee_single (s * 2 ^ 31 + e * 2 ^ 23 + f)
         = Finite (s = 1) (of_int (2 ^ 23 + f) * 2 powi (e - 150))"
proof -
  have e: "0 \<le> e" "e < 256" using assms by simp_all
  show ?thesis
    unfolding ieee_single_def Let_def
      ieee_single_fields [OF assms(1) e assms(4,5)]
    using assms by simp
qed

section \<open>The conversions, in general\<close>

lemma mantissa_bound:
  fixes a0 a1 a2 a3 a4 :: int
  assumes "0 \<le> a0" "a0 < 128" "0 \<le> a1" "a1 < 256" "0 \<le> a2" "a2 < 256"
    "0 \<le> a3" "a3 < 256" "0 \<le> a4" "a4 < 256"
  shows "0 \<le> a0 * 2 ^ 32 + a1 * 2 ^ 24 + a2 * 2 ^ 16 + a3 * 2 ^ 8 + a4"
    and "a0 * 2 ^ 32 + a1 * 2 ^ 24 + a2 * 2 ^ 16 + a3 * 2 ^ 8 + a4 < 2 ^ 39"
  using assms by simp_all

lemma spec_mantissa39_range: "0 \<le> spec_mantissa39 r48 \<and> spec_mantissa39 r48 < 2 ^ 39"
  unfolding spec_mantissa39_def
  using byte_range [of "r48 ! 1"] byte_range [of "r48 ! 2"] byte_range [of "r48 ! 3"]
    byte_range [of "r48 ! 4"]
  by (intro conjI mantissa_bound) simp_all

lemma spec_value_alt:
  "spec_value r48 = Finite (bit (r48 ! 0) 7)
     (of_int (2 ^ 39 + spec_mantissa39 r48) * 2 powi (uint (r48 ! 5) - 168))"
proof -
  have "(2::real) powi (uint (r48 ! 5) - 129) = 2 powi (uint (r48 ! 5) - 168) * 2 ^ 39"
    using power_int_add [of "2::real" "uint (r48 ! 5) - 168" 39] by simp
  then show ?thesis
    by (simp add: spec_value_def field_simps)
qed

lemma consistent_sign: "consistent self \<Longrightarrow> (sign self = 0 \<or> sign self = 1) \<and> (sign self = 1) = bit (byte_str self ! 0) 7"
  by (simp add: consistent_def)

lemma to_double_exact:
  assumes c: "consistent self" and nz: "exp48 self \<noteq> 0"
  shows "to_double self = Inr (spec_value (byte_str self))"
proof -
  define bs where "bs = byte_str self"
  define M where "M = spec_mantissa39 bs"
  define e where "e = exp48 self"
  define s where "s = sign self"
  have len: "length bs = 6" and s: "s = 0 \<or> s = 1" and sb: "(s = 1) = bit (bs ! 0) 7"
    and e5: "e = uint (bs ! 5)"
    using c by (simp_all add: consistent_def bs_def s_def e_def)
  have e: "0 < e" "e < 256"
    using byte_range [of "bs ! 5"] nz unfolding e5 e_def [symmetric] by linarith+
  have M: "0 \<le> M" "M < 2 ^ 39"
    using spec_mantissa39_range [of bs] by (simp_all add: M_def)
  have ba: "byte_at bs 0 = Inr (uint (bs ! 0))" "byte_at bs 1 = Inr (uint (bs ! 1))"
    "byte_at bs 2 = Inr (uint (bs ! 2))" "byte_at bs 3 = Inr (uint (bs ! 3))"
    "byte_at bs 4 = Inr (uint (bs ! 4))" "byte_at bs 5 = Inr (uint (bs ! 5))"
    using len by (simp_all add: byte_at_def)
  have mant: "push_bit 32 (uint (bs ! 0) mod 128) + push_bit 24 (uint (bs ! 1))
      + push_bit 16 (uint (bs ! 2)) + push_bit 8 (uint (bs ! 3)) + uint (bs ! 4) = M"
    by (simp add: M_def spec_mantissa39_def push_bit_eq_mult)
  have bits: "push_bit 63 s + push_bit 52 (e + 894) + push_bit 13 M
      = s * 2 ^ 63 + (e + 894) * 2 ^ 52 + M * 2 ^ 13"
    by (simp only: push_bit_eq_mult)
  have f: "0 \<le> M * 2 ^ 13" "M * 2 ^ 13 < 2 ^ 52"
    using M by simp_all
  have range: "0 \<le> s * 2 ^ 63 + (e + 894) * 2 ^ 52 + M * 2 ^ 13"
    "s * 2 ^ 63 + (e + 894) * 2 ^ 52 + M * 2 ^ 13 < 2 ^ 64"
    using s e f by auto
  have "to_double self
      = rbind (pack_unsigned 8 (s * 2 ^ 63 + (e + 894) * 2 ^ 52 + M * 2 ^ 13)) unpack_d"
    unfolding to_double_def bs_def [symmetric] ba rbind_Inr Let_def mant
      e_def [symmetric] s_def [symmetric] bits
    using e by simp
  also have "\<dots> = Inr (ieee_double (s * 2 ^ 63 + (e + 894) * 2 ^ 52 + M * 2 ^ 13))"
    using range by (rule pack_unpack_d)
  also have "ieee_double (s * 2 ^ 63 + (e + 894) * 2 ^ 52 + M * 2 ^ 13)
      = Finite (s = 1) (of_int (2 ^ 52 + M * 2 ^ 13) * 2 powi (e + 894 - 1075))"
    using s e f by (intro ieee_double_normal) simp_all
  also have "of_int (2 ^ 52 + M * 2 ^ 13) * (2::real) powi (e + 894 - 1075)
      = of_int (2 ^ 39 + M) * 2 powi (e - 168)"
  proof -
    have "(2::real) powi (e - 168) = 2 powi (e + 894 - 1075) * 2 ^ 13"
      using power_int_add [of "2::real" "e + 894 - 1075" 13] by simp
    then show ?thesis by simp
  qed
  finally show ?thesis
    by (simp add: spec_value_alt sb e5 flip: bs_def M_def)
qed

lemma value48_exact:
  assumes len: "length (byte_str self) = 6"
  shows "value48 self =
           Inr (if uint (byte_str self ! 5) = 0 then Finite (bit (byte_str self ! 0) 7) 0
                else spec_value (byte_str self))"
proof -
  define bs where "bs = byte_str self"
  define M where "M = spec_mantissa39 bs"
  define e where "e = uint (bs ! 5)"
  define sg where "sg = bit (bs ! 0) 7"
  have ba: "byte_at bs 0 = Inr (uint (bs ! 0))" "byte_at bs 1 = Inr (uint (bs ! 1))"
    "byte_at bs 2 = Inr (uint (bs ! 2))" "byte_at bs 3 = Inr (uint (bs ! 3))"
    "byte_at bs 4 = Inr (uint (bs ! 4))" "byte_at bs 5 = Inr e"
    using len by (simp_all add: byte_at_def bs_def e_def)
  have e: "0 \<le> e" "e < 256"
    using byte_range [of "bs ! 5"] by (simp_all add: e_def)
  have M: "0 \<le> M" "M < 2 ^ 39"
    using spec_mantissa39_range [of bs] by (simp_all add: M_def)
  have sgn: "rbind (int_truediv (uint (bs ! 0)) 128) int_of_float = Inr (uint (bs ! 0) div 128)"
    using byte_range [of "bs ! 0"] by (intro int_truediv_128) simp_all
  have sg: "(uint (bs ! 0) div 128 = 1) = sg"
    using bit7_div [of "bs ! 0"] by (auto simp: sg_def split: if_splits)
  have p: "pow2 (e - 129) = Inr (Finite False (2 powi (e - 129)))"
    using e by (intro pow2_exact) simp_all
  have m: "mant48 (uint (bs ! 0)) (uint (bs ! 1)) (uint (bs ! 2)) (uint (bs ! 3)) (uint (bs ! 4))
      = Inr (Finite False (of_int (2 ^ 39 + M) * 2 powi (- 39)))"
    unfolding M_def spec_mantissa39_def
    using byte_range [of "bs ! 0"] byte_range [of "bs ! 1"] byte_range [of "bs ! 2"]
      byte_range [of "bs ! 3"] byte_range [of "bs ! 4"]
    by (intro mant48_exact) simp_all
  have z: "float_mul (Finite False (2 powi (e - 129))) (Finite sg 0) = Finite sg 0"
    using float_mul_pow2 [of 0 "- 39" "e - 129" sg] e by simp
  have n: "float_mul (Finite False (2 powi (e - 129)))
        (Finite sg (of_int (2 ^ 39 + M) * 2 powi (- 39)))
      = Finite sg (of_int (2 ^ 39 + M) * 2 powi (e - 168))"
    using float_mul_pow2 [of "2 ^ 39 + M" "- 39" "e - 129" sg] e M by simp
  have ng: "(if sg then float_neg (Finite False x) else Finite False x) = Finite sg x" for x
    by simp
  have v: "value48 self =
      rbind (if e = 0 then Inr f0
             else mant48 (uint (bs ! 0)) (uint (bs ! 1)) (uint (bs ! 2)) (uint (bs ! 3))
                    (uint (bs ! 4)))
        (\<lambda>mant. rbind (pow2 (e - 129))
           (\<lambda>p. Inr (float_mul p (if sg then float_neg mant else mant))))"
    unfolding value48_def bs_def [symmetric] ba rbind_Inr sgn Let_def sg ..
  have "value48 self =
      Inr (if e = 0 then Finite sg 0
           else Finite sg (of_int (2 ^ 39 + M) * 2 powi (e - 168)))"
  proof (cases "e = 0")
    case True
    have "value48 self = Inr (Finite sg 0)"
      unfolding v f0_def
      by (simp only: True simp_thms if_True rbind_Inr ng z [unfolded True] p [unfolded True])
    with True show ?thesis by simp
  next
    case False
    have "value48 self = Inr (Finite sg (of_int (2 ^ 39 + M) * 2 powi (e - 168)))"
      unfolding v
      by (simp only: False if_False rbind_Inr m ng p n)
    with False show ?thesis by simp
  qed
  then show ?thesis
    by (simp add: spec_value_alt flip: bs_def M_def e_def sg_def)
qed

lemma mantissa23_bound:
  fixes a0 a1 a2 :: int
  assumes "0 \<le> a0" "a0 < 128" "0 \<le> a1" "a1 < 256" "0 \<le> a2" "a2 < 256"
  shows "0 \<le> a0 * 2 ^ 16 + a1 * 2 ^ 8 + a2"
    and "a0 * 2 ^ 16 + a1 * 2 ^ 8 + a2 < 2 ^ 23"
  using assms by simp_all

lemma spec_mantissa23_range: "0 \<le> spec_mantissa23 r48 \<and> spec_mantissa23 r48 < 2 ^ 23"
  unfolding spec_mantissa23_def
  using byte_range [of "r48 ! 1"] byte_range [of "r48 ! 2"]
  by (intro conjI mantissa23_bound) simp_all

text \<open>
  The integer that \<open>to_single\<close> hands to \<^verbatim>\<open>struct.pack('>I', bits)\<close>, and what becomes
  of it.
\<close>

lemma to_single_bits:
  assumes c: "consistent self" and nz: "exp48 self \<noteq> 0"
  shows "to_single self =
           rbind (pack_unsigned 4 (sign self * 2 ^ 31 + (exp48 self - 2) * 2 ^ 23
                    + spec_mantissa23 (byte_str self))) unpack_f"
proof -
  define bs where "bs = byte_str self"
  have len: "length bs = 6"
    using c by (simp add: consistent_def bs_def)
  have ba: "byte_at bs 0 = Inr (uint (bs ! 0))" "byte_at bs 1 = Inr (uint (bs ! 1))"
    "byte_at bs 2 = Inr (uint (bs ! 2))"
    using len by (simp_all add: byte_at_def)
  have mant: "push_bit 16 (uint (bs ! 0) mod 128) + push_bit 8 (uint (bs ! 1)) + uint (bs ! 2)
      = spec_mantissa23 bs"
    by (simp add: spec_mantissa23_def push_bit_eq_mult)
  have bits: "push_bit 31 (sign self) + push_bit 23 (exp48 self - 2) + spec_mantissa23 bs
      = sign self * 2 ^ 31 + (exp48 self - 2) * 2 ^ 23 + spec_mantissa23 bs"
    by (simp only: push_bit_eq_mult)
  show ?thesis
    unfolding to_single_def bs_def [symmetric] ba rbind_Inr Let_def mant bits
    using nz by simp
qed

lemma ieee_single_decode:
  assumes "s = 0 \<or> s = 1" "0 \<le> e" "e < 256" "0 \<le> f" "f < 2 ^ 23"
  shows "ieee_single (s * 2 ^ 31 + e * 2 ^ 23 + f)
         = (if e = 255 then (if f = 0 then Infinity (s = 1) else NaN)
            else if e = 0 then Finite (s = 1) (of_int f * 2 powi (- 149))
            else Finite (s = 1) (of_int (2 ^ 23 + f) * 2 powi (e - 150)))"
  unfolding ieee_single_def Let_def ieee_single_fields [OF assms] ..

lemma consistent_fields:
  assumes "consistent self"
  shows "sign self = 0 \<or> sign self = 1" and "(sign self = 1) = bit (byte_str self ! 0) 7"
    and "0 \<le> exp48 self" and "exp48 self < 256" and "exp48 self = uint (byte_str self ! 5)"
  using assms byte_range [of "byte_str self ! 5"] by (simp_all add: consistent_def)

lemma to_single_exact:
  assumes c: "consistent self" and e: "3 \<le> exp48 self"
  shows "to_single self =
           Inr (Finite (bit (byte_str self ! 0) 7)
                  (of_int (2 ^ 23 + spec_mantissa23 (byte_str self))
                   * 2 powi (exp48 self - 152)))"
proof -
  define m where "m = spec_mantissa23 (byte_str self)"
  define s where "s = sign self"
  define x where "x = exp48 self - 2"
  have m: "0 \<le> m" "m < 2 ^ 23"
    using spec_mantissa23_range [of "byte_str self"] by (simp_all add: m_def)
  have s: "s = 0 \<or> s = 1" and sb: "(s = 1) = bit (byte_str self ! 0) 7"
    using consistent_fields [OF c] by (simp_all add: s_def)
  have x: "0 < x" "x < 255"
    using consistent_fields [OF c] e by (simp_all add: x_def)
  have range: "0 \<le> s * 2 ^ 31 + x * 2 ^ 23 + m" "s * 2 ^ 31 + x * 2 ^ 23 + m < 2 ^ 32"
    using s x m by auto
  have "to_single self = rbind (pack_unsigned 4 (s * 2 ^ 31 + x * 2 ^ 23 + m)) unpack_f"
    unfolding s_def x_def m_def using e by (intro to_single_bits [OF c]) simp
  also have "\<dots> = Inr (ieee_single (s * 2 ^ 31 + x * 2 ^ 23 + m))"
    using range by (rule pack_unpack_f)
  also have "ieee_single (s * 2 ^ 31 + x * 2 ^ 23 + m)
      = Finite (s = 1) (of_int (2 ^ 23 + m) * 2 powi (x - 150))"
    using s x m by (intro ieee_single_normal) simp_all
  finally show ?thesis
    by (simp add: sb x_def flip: m_def)
qed

text \<open>Exponent byte 2: the exponent field is 0, the result a subnormal number or a zero.\<close>

lemma to_single_subnormal:
  assumes c: "consistent self" and e: "exp48 self = 2"
  shows "to_single self =
           Inr (Finite (bit (byte_str self ! 0) 7)
                  (of_int (spec_mantissa23 (byte_str self)) * 2 powi (- 149)))"
proof -
  define m where "m = spec_mantissa23 (byte_str self)"
  define s where "s = sign self"
  have m: "0 \<le> m" "m < 2 ^ 23"
    using spec_mantissa23_range [of "byte_str self"] by (simp_all add: m_def)
  have s: "s = 0 \<or> s = 1" and sb: "(s = 1) = bit (byte_str self ! 0) 7"
    using consistent_fields [OF c] by (simp_all add: s_def)
  have range: "0 \<le> s * 2 ^ 31 + 0 * 2 ^ 23 + m" "s * 2 ^ 31 + 0 * 2 ^ 23 + m < 2 ^ 32"
    using s m by auto
  have "to_single self = rbind (pack_unsigned 4 (s * 2 ^ 31 + 0 * 2 ^ 23 + m)) unpack_f"
    unfolding s_def m_def using to_single_bits [OF c] e by simp
  also have "\<dots> = Inr (ieee_single (s * 2 ^ 31 + 0 * 2 ^ 23 + m))"
    using range by (rule pack_unpack_f)
  also have "ieee_single (s * 2 ^ 31 + 0 * 2 ^ 23 + m)
      = (if (0::int) = 255 then (if m = 0 then Infinity (s = 1) else NaN)
         else if (0::int) = 0 then Finite (s = 1) (of_int m * 2 powi (- 149))
         else Finite (s = 1) (of_int (2 ^ 23 + m) * 2 powi (0 - 150)))"
    using s m by (intro ieee_single_decode) simp_all
  also have "\<dots> = Finite (s = 1) (of_int m * 2 powi (- 149))"
    by simp
  finally show ?thesis
    by (simp add: sb flip: m_def)
qed

text \<open>
  Exponent byte 1: the exponent field would be \<open>-1\<close>. With the sign bit clear the
  pattern is negative and \<^verbatim>\<open>struct.pack\<close> raises; with the sign bit set the borrow
  clears bit 31 and leaves the exponent field 255, an infinity or a NaN.
\<close>

lemma to_single_exponent_1:
  assumes c: "consistent self" and e: "exp48 self = 1"
  shows "to_single self =
           (if bit (byte_str self ! 0) 7
            then Inr (if spec_mantissa23 (byte_str self) = 0 then Infinity False else NaN)
            else Inl StructError)"
proof -
  define m where "m = spec_mantissa23 (byte_str self)"
  define s where "s = sign self"
  have m: "0 \<le> m" "m < 2 ^ 23"
    using spec_mantissa23_range [of "byte_str self"] by (simp_all add: m_def)
  have s: "s = 0 \<or> s = 1" and sb: "(s = 1) = bit (byte_str self ! 0) 7"
    using consistent_fields [OF c] by (simp_all add: s_def)
  have t: "to_single self = rbind (pack_unsigned 4 (s * 2 ^ 31 + (- 1) * 2 ^ 23 + m)) unpack_f"
    unfolding s_def m_def using to_single_bits [OF c] e by simp
  show ?thesis
  proof (cases "s = 1")
    case True
    have z: "(0::int) = 0 \<or> (0::int) = 1" by simp
    have b: "s * 2 ^ 31 + (- 1) * 2 ^ 23 + m = 0 * 2 ^ 31 + 255 * 2 ^ 23 + m"
      using True by simp
    have range: "0 \<le> 0 * 2 ^ 31 + 255 * 2 ^ 23 + m" "0 * 2 ^ 31 + 255 * 2 ^ 23 + m < 2 ^ 32"
      using m by auto
    have "to_single self = rbind (pack_unsigned 4 (0 * 2 ^ 31 + 255 * 2 ^ 23 + m)) unpack_f"
      unfolding t b ..
    also have "\<dots> = Inr (ieee_single (0 * 2 ^ 31 + 255 * 2 ^ 23 + m))"
      using range by (rule pack_unpack_f)
    also have "ieee_single (0 * 2 ^ 31 + 255 * 2 ^ 23 + m)
        = (if (255::int) = 255 then (if m = 0 then Infinity ((0::int) = 1) else NaN)
           else if (255::int) = 0 then Finite ((0::int) = 1) (of_int m * 2 powi (- 149))
           else Finite ((0::int) = 1) (of_int (2 ^ 23 + m) * 2 powi (255 - 150)))"
      using m by (intro ieee_single_decode) simp_all
    also have "\<dots> = (if m = 0 then Infinity False else NaN)"
      by simp
    finally show ?thesis
      using True sb by (simp flip: m_def)
  next
    case False
    with s have "s * 2 ^ 31 + (- 1) * 2 ^ 23 + m < 0"
      using m by auto
    then have "to_single self = Inl StructError"
      unfolding t by (simp add: pack_unsigned_def)
    with False sb show ?thesis by simp
  qed
qed

lemma zero_exponent:
  assumes c: "consistent self" and e: "exp48 self = 0"
  shows "to_single self = Inr (Finite False 0)" and "to_double self = Inr (Finite False 0)"
    and "value48 self = Inr (Finite (bit (byte_str self ! 0) 7) 0)"
proof -
  have len: "length (byte_str self) = 6"
    using c by (simp add: consistent_def)
  then show "to_single self = Inr (Finite False 0)"
    and "to_double self = Inr (Finite False 0)"
    using e by (simp_all add: to_single_def to_double_def)
  show "value48 self = Inr (Finite (bit (byte_str self ! 0) 7) 0)"
    using value48_exact [OF len] consistent_fields [OF c] e by simp
qed

lemma reachable_consistent:
  assumes "init arg = Inr self0" and "self = run self0 ms"
  shows "consistent self"
  using assms init_consistent run_consistent by blast

lemma spec_value_bound:
  "\<exists>r. spec_value r48 = Finite (bit (r48 ! 0) 7) r \<and> 0 < r \<and> r < 2 powi 127"
proof -
  define M where "M = spec_mantissa39 r48"
  define e where "e = uint (r48 ! 5)"
  have M: "0 \<le> M" "M < 2 ^ 39"
    using spec_mantissa39_range [of r48] by (simp_all add: M_def)
  have e: "e \<le> 255"
    using byte_range [of "r48 ! 5"] by (simp add: e_def)
  have "2 ^ 39 + M < 2 ^ 40" "0 < 2 ^ 39 + M"
    using M by simp_all
  then have m: "(of_int (2 ^ 39 + M) :: real) < 2 ^ 40" "0 < (of_int (2 ^ 39 + M) :: real)"
    by (metis of_int_less_numeral_power_cancel_iff, simp only: of_int_0_less_iff)
  have "of_int (2 ^ 39 + M) * 2 powi (e - 168) < 2 ^ 40 * (2::real) powi (e - 168)"
    using m by (intro mult_strict_right_mono) simp_all
  also have "\<dots> = 2 powi (e - 128)"
    using power_int_add [of "2::real" 40 "e - 168"] by simp
  also have "\<dots> \<le> 2 powi 127"
    using e by (intro power_int_increasing) simp_all
  finally have "of_int (2 ^ 39 + M) * 2 powi (e - 168) < (2::real) powi 127" .
  moreover have "0 < of_int (2 ^ 39 + M) * (2::real) powi (e - 168)"
    using m by (intro mult_pos_pos) simp_all
  ultimately show ?thesis
    unfolding spec_value_alt M_def e_def by blast
qed

text \<open>
  Flipping the sign bit negates \<open>to_double\<close> and \<open>value\<close> for every non-zero exponent
  byte, and \<open>to_single\<close> from exponent byte 2 on.
\<close>

lemma bit7_flip: "bit (w XOR 0x80 :: 8 word) 7 = (\<not> bit w 7)"
proof -
  have "(0x80 :: 8 word) = 2 ^ 7"
    by simp
  then have "bit (0x80 :: 8 word) 7"
    by (simp only: bit_exp_iff) simp
  then show ?thesis
    by (simp only: bit_xor_iff) simp
qed

lemma low7_flip: "uint (w XOR 0x80 :: 8 word) mod 128 = uint w mod 128"
proof -
  have "uint (w XOR 0x80) mod 128 = take_bit 7 (uint w XOR 128)"
    by (simp add: take_bit_eq_mod uint_xor)
  also have "\<dots> = take_bit 7 (uint w) XOR take_bit 7 (128::int)"
    by (rule take_bit_xor)
  also have "take_bit 7 (128::int) = 0"
    by (simp add: take_bit_eq_mod)
  finally show ?thesis
    by (simp add: take_bit_eq_mod)
qed

lemma flip_sign_facts:
  assumes "length r48 = 6"
  shows "length (flip_sign r48) = 6"
    and "bit (flip_sign r48 ! 0) 7 = (\<not> bit (r48 ! 0) 7)"
    and "flip_sign r48 ! 5 = r48 ! 5"
    and "spec_mantissa39 (flip_sign r48) = spec_mantissa39 r48"
    and "spec_mantissa23 (flip_sign r48) = spec_mantissa23 r48"
  using assms
  by (simp_all add: flip_sign_def bit7_flip low7_flip spec_mantissa39_def spec_mantissa23_def)

lemma sign_flip_negates:
  assumes a: "init (Bytes r48) = Inr a" and b: "init (Bytes (flip_sign r48)) = Inr b"
    and nz: "r48 ! 5 \<noteq> 0"
  shows "\<exists>x. to_double a = Inr x \<and> to_double b = Inr (float_neg x)"
    and "\<exists>x. value48 a = Inr x \<and> value48 b = Inr (float_neg x)"
    and "2 \<le> uint (r48 ! 5) \<Longrightarrow> \<exists>x. to_single a = Inr x \<and> to_single b = Inr (float_neg x)"
proof -
  have ca: "consistent a" and ba: "byte_str a = r48"
    using init_consistent [OF a] by simp_all
  have cb: "consistent b" and bb: "byte_str b = flip_sign r48"
    using init_consistent [OF b] by simp_all
  have len: "length r48 = 6"
    using ca ba by (simp add: consistent_def)
  note f = flip_sign_facts [OF len]
  have ea: "exp48 a = uint (r48 ! 5)" and eb: "exp48 b = uint (r48 ! 5)"
    using ca cb ba bb f by (simp_all add: consistent_def)
  have nz': "uint (r48 ! 5) \<noteq> 0"
    using nz by (simp add: uint_0_iff)
  have sv: "spec_value (flip_sign r48) = float_neg (spec_value r48)"
    by (simp add: spec_value_def f)
  have "to_double a = Inr (spec_value r48)" "to_double b = Inr (spec_value (flip_sign r48))"
    using to_double_exact [OF ca] to_double_exact [OF cb] nz' ea eb ba bb by simp_all
  then show "\<exists>x. to_double a = Inr x \<and> to_double b = Inr (float_neg x)"
    unfolding sv by blast
  have "value48 a = Inr (spec_value r48)" "value48 b = Inr (spec_value (flip_sign r48))"
    using value48_exact [of a] value48_exact [of b] len f nz' ba bb by simp_all
  then show "\<exists>x. value48 a = Inr x \<and> value48 b = Inr (float_neg x)"
    unfolding sv by blast
  show "\<exists>x. to_single a = Inr x \<and> to_single b = Inr (float_neg x)"
    if "2 \<le> uint (r48 ! 5)"
  proof (cases "uint (r48 ! 5) = 2")
    case True
    then show ?thesis
      using to_single_subnormal [OF ca] to_single_subnormal [OF cb] ea eb ba bb f by simp
  next
    case False
    with that have "3 \<le> uint (r48 ! 5)" by simp
    then show ?thesis
      using to_single_exact [OF ca] to_single_exact [OF cb] ea eb ba bb f by simp
  qed
qed

section \<open>The range and the layout of combine\_ints\<close>

text \<open>
  C4. \<open>combine_ints\<close> raises, and then it is the ValueError of its range check and no
  buffer is returned, exactly when \<open>int2\<close> is outside \<open>[-32767, 32767]\<close> or \<open>int4\<close> is
  outside \<open>[-2147483648, 2147483647]\<close>. So \<open>combine_ints (-32768) 0\<close> raises and
  \<open>combine_ints 32767 2147483647\<close> returns.
\<close>

theorem combine_ints_range:
  "(combine_ints int2 int4 = Inl ValueError)
     = (int2 < - 32767 \<or> 32767 < int2 \<or> int4 < - 2147483648 \<or> 2147483647 < int4)
   \<and> isl (combine_ints int2 int4)
     = (int2 < - 32767 \<or> 32767 < int2 \<or> int4 < - 2147483648 \<or> 2147483647 < int4)
   \<and> combine_ints (- 32768) 0 = Inl ValueError
   \<and> \<not> isl (combine_ints 32767 2147483647)"
  by (auto simp: combine_ints_def pack_signed_def)

text \<open>
  C5. For an in-range pair \<open>combine_ints\<close> returns six bytes: four bytes that read, as
  a big-endian two's-complement int, \<open>int4\<close>, followed by two bytes that read \<open>int2\<close>.
\<close>

theorem combine_ints_layout:
  assumes "- 32767 \<le> int2" "int2 \<le> 32767" "- 2147483648 \<le> int4" "int4 \<le> 2147483647"
  shows "\<exists>big small. combine_ints int2 int4 = Inr (big @ small)
           \<and> length big = 4 \<and> length small = 2 \<and> length (big @ small) = 6
           \<and> be_sint big = int4 \<and> be_sint small = int2"
proof -
  have "be_sint (be_bytes 4 (int4 mod 256 ^ 4)) = int4"
    using assms by (intro be_sint_pack) simp_all
  moreover have "be_sint (be_bytes 2 (int2 mod 256 ^ 2)) = int2"
    using assms by (intro be_sint_pack) simp_all
  ultimately show ?thesis
    using assms
    by (intro exI [of _ "be_bytes 4 (int4 mod 256 ^ 4)"] exI [of _ "be_bytes 2 (int2 mod 256 ^ 2)"])
       (simp add: combine_ints_def pack_signed_def)
qed

text \<open>The pair of the specification's test: 123456 is 0x0001E240 and 1000 is 0x03E8.\<close>

theorem combine_ints_layout_witness:
  "combine_ints 1000 123456 = Inr [0, 1, 0xE2, 0x40, 0x03, 0xE8]
   \<and> (\<exists>big small. combine_ints 1000 123456 = Inr (big @ small)
           \<and> length big = 4 \<and> length small = 2 \<and> length (big @ small) = 6
           \<and> be_sint big = 123456 \<and> be_sint small = 1000)"
proof
  show "combine_ints 1000 123456 = Inr [0, 1, 0xE2, 0x40, 0x03, 0xE8]"
    by code_simp
  show "\<exists>big small. combine_ints 1000 123456 = Inr (big @ small)
           \<and> length big = 4 \<and> length small = 2 \<and> length (big @ small) = 6
           \<and> be_sint big = 123456 \<and> be_sint small = 1000"
    using combine_ints_layout [of 1000 123456] by simp
qed

section \<open>The instance and its cached fields\<close>

text \<open>
  C6. For every instance, as the constructor returns it and after any calls,
  \<open>reverse_bytes\<close> reverses the buffer, and a second \<open>reverse_bytes\<close> gives the
  instance back: the same six bytes and the same \<open>sign\<close> and \<open>exp\<close>. Neither call
  raises.
\<close>

theorem reverse_bytes_twice:
  assumes "init arg = Inr self0" and "self = run self0 ms"
  shows "\<exists>self'. reverse_bytes self = (self', None) \<and> byte_str self' = rev (byte_str self)
           \<and> reverse_bytes self' = (self, None)"
proof -
  have c: "consistent self"
    using assms init_consistent run_consistent by blast
  then obtain self' where "reverse_bytes self = (self', None)"
    and "reverse_bytes self' = (self, None)"
    using reverse_bytes_involution by blast
  moreover from c obtain self'' where "reverse_bytes self = (self'', None)"
    and "byte_str self'' = rev (byte_str self)"
    using reverse_bytes_consistent by blast
  ultimately show ?thesis by auto
qed

theorem reverse_bytes_twice_witness:
  "init (Bytes [0x80, 1, 2, 3, 4, 0x81])
     = Inr \<lparr>byte_str = [0x80, 1, 2, 3, 4, 0x81], sign = 1, exp48 = 129\<rparr>
   \<and> \<lparr>byte_str = [0x81, 4, 3, 2, 1, 0x80], sign = 1, exp48 = 128\<rparr>
     = run \<lparr>byte_str = [0x80, 1, 2, 3, 4, 0x81], sign = 1, exp48 = 129\<rparr>
         [To_double, Reverse_bytes]
   \<and> (\<exists>self'. reverse_bytes \<lparr>byte_str = [0x81, 4, 3, 2, 1, 0x80], sign = 1, exp48 = 128\<rparr>
                = (self', None)
         \<and> byte_str self' = rev [0x81, 4, 3, 2, 1, 0x80]
         \<and> reverse_bytes self'
            = (\<lparr>byte_str = [0x81, 4, 3, 2, 1, 0x80], sign = 1, exp48 = 128\<rparr>, None))"
proof -
  have i: "init (Bytes [0x80, 1, 2, 3, 4, 0x81])
      = Inr \<lparr>byte_str = [0x80, 1, 2, 3, 4, 0x81], sign = 1, exp48 = 129\<rparr>"
    by (simp add: init_Bytes)
  have r: "\<lparr>byte_str = [0x81, 4, 3, 2, 1, 0x80], sign = 1, exp48 = 128\<rparr>
      = run \<lparr>byte_str = [0x80, 1, 2, 3, 4, 0x81], sign = 1, exp48 = 129\<rparr>
          [To_double, Reverse_bytes]"
    by (simp add: reverse_bytes_def extract_sign_div extract_exponent_byte)
  have "\<exists>self'. reverse_bytes \<lparr>byte_str = [0x81, 4, 3, 2, 1, 0x80], sign = 1, exp48 = 128\<rparr>
                = (self', None)
         \<and> byte_str self' = rev [0x81, 4, 3, 2, 1, 0x80]
         \<and> reverse_bytes self'
            = (\<lparr>byte_str = [0x81, 4, 3, 2, 1, 0x80], sign = 1, exp48 = 128\<rparr>, None)"
    using reverse_bytes_twice [OF i r] by simp
  with i r show ?thesis by blast
qed

text \<open>
  C9. After the constructor and after any sequence of calls (of \<open>reverse_bytes\<close>, of
  the three conversions, of reads of the two fields) the buffer has six bytes, \<open>sign\<close>
  is bit 7 of its byte 0 and \<open>exp\<close> is its byte 5; the conversions and the reads leave
  the instance as it is.
\<close>

theorem fields_consistent:
  assumes "init arg = Inr self0" and "self = run self0 ms"
  shows "length (byte_str self) = 6
         \<and> sign self = (if bit (byte_str self ! 0) 7 then 1 else 0)
         \<and> exp48 self = uint (byte_str self ! 5)
         \<and> fst (call self To_single) = self \<and> fst (call self To_double) = self
         \<and> fst (call self Value) = self
         \<and> fst (call self Get_sign) = self \<and> fst (call self Get_exp) = self"
proof -
  have "consistent self"
    using assms init_consistent run_consistent by blast
  then show ?thesis by (simp add: consistent_def)
qed

theorem fields_consistent_witness:
  "init (Bytes [0x01, 2, 3, 4, 5, 0x86])
     = Inr \<lparr>byte_str = [0x01, 2, 3, 4, 5, 0x86], sign = 0, exp48 = 134\<rparr>
   \<and> \<lparr>byte_str = [0x86, 5, 4, 3, 2, 0x01], sign = 1, exp48 = 1\<rparr>
     = run \<lparr>byte_str = [0x01, 2, 3, 4, 5, 0x86], sign = 0, exp48 = 134\<rparr>
         [To_single, Reverse_bytes, Get_sign, Reverse_bytes, Value, Reverse_bytes]
   \<and> length [0x86, 5, 4, 3, 2, 0x01 :: 8 word] = 6
   \<and> (1 :: int) = (if bit ([0x86, 5, 4, 3, 2, 0x01 :: 8 word] ! 0) 7 then 1 else 0)
   \<and> (1 :: int) = uint ([0x86, 5, 4, 3, 2, 0x01 :: 8 word] ! 5)"
proof -
  have i: "init (Bytes [0x01, 2, 3, 4, 5, 0x86])
      = Inr \<lparr>byte_str = [0x01, 2, 3, 4, 5, 0x86], sign = 0, exp48 = 134\<rparr>"
    by (simp add: init_Bytes)
  have r: "\<lparr>byte_str = [0x86, 5, 4, 3, 2, 0x01], sign = 1, exp48 = 1\<rparr>
      = run \<lparr>byte_str = [0x01, 2, 3, 4, 5, 0x86], sign = 0, exp48 = 134\<rparr>
          [To_single, Reverse_bytes, Get_sign, Reverse_bytes, Value, Reverse_bytes]"
    by (simp add: reverse_bytes_def extract_sign_div extract_exponent_byte)
  have "length [0x86, 5, 4, 3, 2, 0x01 :: 8 word] = 6
      \<and> (1 :: int) = (if bit ([0x86, 5, 4, 3, 2, 0x01 :: 8 word] ! 0) 7 then 1 else 0)
      \<and> (1 :: int) = uint ([0x86, 5, 4, 3, 2, 0x01 :: 8 word] ! 5)"
    using fields_consistent [OF i r] by simp
  with i r show ?thesis by blast
qed

section \<open>The three conversions\<close>

text \<open>
  C1. On every instance whose exponent byte (byte 5) is neither 0 nor 255, \<open>to_double\<close>
  and \<open>value\<close> return the same float, the value
  \<open>(-1)^sign * 2^(exponent - 129) * (1 + M / 2^39)\<close> of the format with \<open>M\<close> the 39-bit
  mantissa: no operation of \<open>value\<close> rounds. So they agree to within a relative error
  of \<open>1e-9\<close>.
\<close>

theorem to_double_value_agree:
  assumes "init arg = Inr self0" and "self = run self0 ms"
    and "byte_str self ! 5 \<noteq> 0" and "byte_str self ! 5 \<noteq> 255"
  shows "to_double self = Inr (spec_value (byte_str self))
         \<and> value48 self = Inr (spec_value (byte_str self))
         \<and> (\<exists>s x y. to_double self = Inr (Finite s x) \<and> value48 self = Inr (Finite s y)
               \<and> \<bar>x - y\<bar> \<le> \<bar>x\<bar> / 10 ^ 9)"
proof -
  have c: "consistent self"
    using assms(1,2) by (rule reachable_consistent)
  then have len: "length (byte_str self) = 6"
    and e: "exp48 self = uint (byte_str self ! 5)"
    by (simp_all add: consistent_def)
  have nz: "uint (byte_str self ! 5) \<noteq> 0"
    using assms(3) by (simp add: uint_0_iff)
  have d: "to_double self = Inr (spec_value (byte_str self))"
    using c nz e by (intro to_double_exact) simp_all
  have v: "value48 self = Inr (spec_value (byte_str self))"
    using value48_exact [OF len] nz by simp
  obtain r where "spec_value (byte_str self) = Finite (bit (byte_str self ! 0) 7) r"
    using spec_value_bound by blast
  with d v have "to_double self = Inr (Finite (bit (byte_str self ! 0) 7) r)
      \<and> value48 self = Inr (Finite (bit (byte_str self ! 0) 7) r) \<and> \<bar>r - r\<bar> \<le> \<bar>r\<bar> / 10 ^ 9"
    by simp
  then have "\<exists>s x y. to_double self = Inr (Finite s x) \<and> value48 self = Inr (Finite s y)
               \<and> \<bar>x - y\<bar> \<le> \<bar>x\<bar> / 10 ^ 9"
    by blast
  with d v show ?thesis by blast
qed

theorem to_double_value_agree_witness:
  "init (Bytes [0x80, 1, 2, 3, 4, 0x81])
     = Inr \<lparr>byte_str = [0x80, 1, 2, 3, 4, 0x81], sign = 1, exp48 = 129\<rparr>
   \<and> to_double \<lparr>byte_str = [0x80, 1, 2, 3, 4, 0x81], sign = 1, exp48 = 129\<rparr>
     = Inr (Finite True (137443180737 / 137438953472))
   \<and> value48 \<lparr>byte_str = [0x80, 1, 2, 3, 4, 0x81], sign = 1, exp48 = 129\<rparr>
     = Inr (Finite True (137443180737 / 137438953472))"
proof -
  define self where "self = \<lparr>byte_str = [0x80, 1, 2, 3, 4, 0x81 :: 8 word], sign = 1, exp48 = 129\<rparr>"
  have i: "init (Bytes [0x80, 1, 2, 3, 4, 0x81]) = Inr self"
    by (simp add: init_Bytes self_def)
  have r: "self = run self []"
    by simp
  have b: "byte_str self ! 5 \<noteq> 0" "byte_str self ! 5 \<noteq> 255"
    by (simp_all add: self_def)
  have s: "spec_value (byte_str self) = Finite True (137443180737 / 137438953472)"
    by (simp add: self_def spec_value_def spec_mantissa39_def)
  have "to_double self = Inr (Finite True (137443180737 / 137438953472))
      \<and> value48 self = Inr (Finite True (137443180737 / 137438953472))"
    using to_double_value_agree [OF i r b] unfolding s by blast
  with i show ?thesis
    unfolding self_def by blast
qed

text \<open>
  C2. The claim is that with exponent byte 0 all three conversions return the positive
  zero whatever the sign bit. \<open>to_single\<close> and \<open>to_double\<close> do; \<open>value\<close> negates its
  zero mantissa when the sign bit is set and returns \<open>-0.0\<close>: here on the buffer
  \<open>80 00 00 00 00 00\<close>.
\<close>

theorem value48_negative_zero:
  "init (Bytes [0x80, 0, 0, 0, 0, 0])
     = Inr \<lparr>byte_str = [0x80, 0, 0, 0, 0, 0], sign = 1, exp48 = 0\<rparr>
   \<and> to_single \<lparr>byte_str = [0x80, 0, 0, 0, 0, 0], sign = 1, exp48 = 0\<rparr> = Inr (Finite False 0)
   \<and> to_double \<lparr>byte_str = [0x80, 0, 0, 0, 0, 0], sign = 1, exp48 = 0\<rparr> = Inr (Finite False 0)
   \<and> value48 \<lparr>byte_str = [0x80, 0, 0, 0, 0, 0], sign = 1, exp48 = 0\<rparr> = Inr (Finite True 0)"
proof -
  define self where "self = \<lparr>byte_str = [0x80, 0, 0, 0, 0, 0 :: 8 word], sign = 1, exp48 = 0\<rparr>"
  have i: "init (Bytes [0x80, 0, 0, 0, 0, 0]) = Inr self"
    by (simp add: init_Bytes self_def)
  then have c: "consistent self"
    using init_consistent by blast
  have e: "exp48 self = 0" and b: "bit (byte_str self ! 0) 7"
    by (simp_all add: self_def)
  show ?thesis
    using i zero_exponent [OF c e] b unfolding self_def by simp
qed

text \<open>
  C3. The claim is that \<open>to_single\<close> returns a float for every non-zero exponent byte.
  With exponent byte 1 the rebiased exponent is \<open>-1\<close> and the pattern is negative when
  the sign bit is clear: \<^verbatim>\<open>struct.pack('>I', bits)\<close> raises, here on the buffer
  \<open>00 00 00 00 00 01\<close>.
\<close>

theorem to_single_exponent_1_raises:
  "init (Bytes [0, 0, 0, 0, 0, 1])
     = Inr \<lparr>byte_str = [0, 0, 0, 0, 0, 1], sign = 0, exp48 = 1\<rparr>
   \<and> to_single \<lparr>byte_str = [0, 0, 0, 0, 0, 1], sign = 0, exp48 = 1\<rparr> = Inl StructError"
proof -
  define self where "self = \<lparr>byte_str = [0, 0, 0, 0, 0, 1 :: 8 word], sign = 0, exp48 = 1\<rparr>"
  have i: "init (Bytes [0, 0, 0, 0, 0, 1]) = Inr self"
    by (simp add: init_Bytes self_def)
  then have c: "consistent self"
    using init_consistent by blast
  have e: "exp48 self = 1" and b: "\<not> bit (byte_str self ! 0) 7"
    by (simp_all add: self_def)
  show ?thesis
    using i to_single_exponent_1 [OF c e] b unfolding self_def by simp
qed

text \<open>
  C7. On every instance whose exponent byte is 255 neither \<open>to_single\<close> nor \<open>to_double\<close>
  raises, and both return the finite float of the general path: exponent fields 253
  and 1149, below the fields 255 and 2047 of the infinities and NaNs.
\<close>

theorem exponent_255_passes_through:
  assumes "init arg = Inr self0" and "self = run self0 ms"
    and "byte_str self ! 5 = 255"
  shows "to_single self = Inr (Finite (bit (byte_str self ! 0) 7)
           (of_int (2 ^ 23 + spec_mantissa23 (byte_str self)) * 2 powi (253 - 150)))
         \<and> to_double self = Inr (Finite (bit (byte_str self ! 0) 7)
           (of_int (2 ^ 52 + spec_mantissa39 (byte_str self) * 2 ^ 13) * 2 powi (1149 - 1075)))"
proof -
  have c: "consistent self"
    using assms(1,2) by (rule reachable_consistent)
  then have e: "exp48 self = 255"
    using assms(3) by (simp add: consistent_def)
  have "to_single self = Inr (Finite (bit (byte_str self ! 0) 7)
           (of_int (2 ^ 23 + spec_mantissa23 (byte_str self)) * 2 powi (exp48 self - 152)))"
    using c e by (intro to_single_exact) simp_all
  moreover have "to_double self = Inr (spec_value (byte_str self))"
    using c e by (intro to_double_exact) simp_all
  moreover have "of_int (2 ^ 39 + spec_mantissa39 (byte_str self)) * (2::real) powi (255 - 168)
      = of_int (2 ^ 52 + spec_mantissa39 (byte_str self) * 2 ^ 13) * 2 powi (1149 - 1075)"
  proof -
    have "(2::real) powi (255 - 168) = 2 powi (1149 - 1075) * 2 ^ 13"
      by simp
    then show ?thesis by simp
  qed
  ultimately show ?thesis
    unfolding spec_value_alt e assms(3) by simp
qed

theorem exponent_255_passes_through_witness:
  "init (Bytes [0x00, 0, 0, 0, 0, 0xFF])
     = Inr \<lparr>byte_str = [0x00, 0, 0, 0, 0, 0xFF], sign = 0, exp48 = 255\<rparr>
   \<and> to_single \<lparr>byte_str = [0x00, 0, 0, 0, 0, 0xFF], sign = 0, exp48 = 255\<rparr>
     = Inr (Finite False (2 ^ 126))
   \<and> to_double \<lparr>byte_str = [0x00, 0, 0, 0, 0, 0xFF], sign = 0, exp48 = 255\<rparr>
     = Inr (Finite False (2 ^ 126))"
proof -
  define self where "self = \<lparr>byte_str = [0x00, 0, 0, 0, 0, 0xFF :: 8 word], sign = 0, exp48 = 255\<rparr>"
  have i: "init (Bytes [0x00, 0, 0, 0, 0, 0xFF]) = Inr self"
    by (simp add: init_Bytes self_def)
  have r: "self = run self []"
    by simp
  have b: "byte_str self ! 5 = 255"
    by (simp add: self_def)
  have m: "spec_mantissa23 (byte_str self) = 0" "spec_mantissa39 (byte_str self) = 0"
    "\<not> bit (byte_str self ! 0) 7"
    by (simp_all add: self_def spec_mantissa23_def spec_mantissa39_def)
  have "to_single self = Inr (Finite False (2 ^ 126)) \<and> to_double self = Inr (Finite False (2 ^ 126))"
    using exponent_255_passes_through [OF i r b] by (simp add: m)
  with i show ?thesis
    unfolding self_def by blast
qed

text \<open>
  C8. The claim is that flipping the sign bit negates the result of each conversion
  when the exponent byte is neither 0 nor 255. With exponent byte 1 \<open>to_single\<close> raises
  when the sign bit is clear and returns a NaN (or \<open>+inf\<close>, for a zero mantissa) when
  it is set: here on the buffers \<open>40 00 00 00 00 01\<close> and \<open>C0 00 00 00 00 01\<close>.
  For the other exponent bytes, and for \<open>to_double\<close> and \<open>value\<close>, the sign bit negates
  the result (\<open>sign_flip_negates\<close>).
\<close>

theorem to_single_sign_flip_exponent_1:
  "init (Bytes [0x40, 0, 0, 0, 0, 1])
     = Inr \<lparr>byte_str = [0x40, 0, 0, 0, 0, 1], sign = 0, exp48 = 1\<rparr>
   \<and> init (Bytes [0xC0, 0, 0, 0, 0, 1])
     = Inr \<lparr>byte_str = [0xC0, 0, 0, 0, 0, 1], sign = 1, exp48 = 1\<rparr>
   \<and> to_single \<lparr>byte_str = [0x40, 0, 0, 0, 0, 1], sign = 0, exp48 = 1\<rparr> = Inl StructError
   \<and> to_single \<lparr>byte_str = [0xC0, 0, 0, 0, 0, 1], sign = 1, exp48 = 1\<rparr> = Inr NaN"
proof -
  define a where "a = \<lparr>byte_str = [0x40, 0, 0, 0, 0, 1 :: 8 word], sign = 0, exp48 = 1\<rparr>"
  define b where "b = \<lparr>byte_str = [0xC0, 0, 0, 0, 0, 1 :: 8 word], sign = 1, exp48 = 1\<rparr>"
  have ia: "init (Bytes [0x40, 0, 0, 0, 0, 1]) = Inr a"
    by (simp add: init_Bytes a_def)
  have ib: "init (Bytes [0xC0, 0, 0, 0, 0, 1]) = Inr b"
    by (simp add: init_Bytes b_def)
  have ca: "consistent a" and cb: "consistent b"
    using ia ib init_consistent by blast+
  have "to_single a = Inl StructError"
    using to_single_exponent_1 [OF ca] by (simp add: a_def)
  moreover have "to_single b = Inr NaN"
    using to_single_exponent_1 [OF cb] by (simp add: b_def spec_mantissa23_def)
  ultimately show ?thesis
    using ia ib unfolding a_def b_def by blast
qed

text \<open>
  C10. On every instance \<open>to_double\<close> returns, and what it returns is finite: the
  rebiased exponent is at most 1149, the magnitude is below \<open>2^127\<close>, and the result is
  the positive zero when the exponent byte is 0.
\<close>

theorem to_double_finite:
  assumes "init arg = Inr self0" and "self = run self0 ms"
  shows "exp48 self + 894 \<le> 1149
         \<and> (\<exists>s r. to_double self = Inr (Finite s r) \<and> 0 \<le> r \<and> r < 2 powi 127)
         \<and> to_double self = Inr (if byte_str self ! 5 = 0 then Finite False 0
                                   else spec_value (byte_str self))"
proof -
  have c: "consistent self"
    using assms by (rule reachable_consistent)
  have e: "exp48 self = uint (byte_str self ! 5)" "exp48 self < 256"
    using consistent_fields [OF c] by simp_all
  have z: "(byte_str self ! 5 = 0) = (exp48 self = 0)"
    by (simp add: e uint_0_iff)
  have d: "to_double self = Inr (if byte_str self ! 5 = 0 then Finite False 0
                                   else spec_value (byte_str self))"
    using zero_exponent(2) [OF c] to_double_exact [OF c] unfolding z by simp
  obtain r where r: "spec_value (byte_str self) = Finite (bit (byte_str self ! 0) 7) r"
    "0 < r" "r < 2 powi 127"
    using spec_value_bound by blast
  have "\<exists>s r. to_double self = Inr (Finite s r) \<and> 0 \<le> r \<and> r < 2 powi 127"
  proof (cases "byte_str self ! 5 = 0")
    case True
    then have "to_double self = Inr (Finite False 0) \<and> (0::real) \<le> 0 \<and> (0::real) < 2 powi 127"
      using d by simp
    then show ?thesis by blast
  next
    case False
    then have "to_double self = Inr (Finite (bit (byte_str self ! 0) 7) r) \<and> 0 \<le> r \<and> r < 2 powi 127"
      using d r by simp
    then show ?thesis by blast
  qed
  with d e show ?thesis by simp
qed

theorem to_double_finite_witness:
  "init (Bytes [0xFF, 0xFF, 0xFF, 0xFF, 0xFF, 0xFF])
     = Inr \<lparr>byte_str = [0xFF, 0xFF, 0xFF, 0xFF, 0xFF, 0xFF], sign = 1, exp48 = 255\<rparr>
   \<and> (255 :: int) + 894 \<le> 1149
   \<and> (\<exists>s r. to_double \<lparr>byte_str = [0xFF, 0xFF, 0xFF, 0xFF, 0xFF, 0xFF], sign = 1, exp48 = 255\<rparr>
               = Inr (Finite s r) \<and> 0 \<le> r \<and> r < 2 powi 127)"
proof -
  define self where "self = \<lparr>byte_str = [0xFF, 0xFF, 0xFF, 0xFF, 0xFF, 0xFF :: 8 word], sign = 1, exp48 = 255\<rparr>"
  have i: "init (Bytes [0xFF, 0xFF, 0xFF, 0xFF, 0xFF, 0xFF]) = Inr self"
    by (simp add: init_Bytes self_def)
  have r: "self = run self []"
    by simp
  have "\<exists>s r. to_double self = Inr (Finite s r) \<and> 0 \<le> r \<and> r < 2 powi 127"
    using to_double_finite [OF i r] by blast
  with i show ?thesis
    unfolding self_def by simp
qed

end
